theory Spec2Isabelle
  imports Complex_Main "HOL-Library.Word" "HOL-Library.Log_Nat"
begin

section \<open>The C platform\<close>

text \<open>
  The library \<^verbatim>\<open>progressbar.c\<close> is modelled for an LP64 platform with IEEE-754
  binary64 doubles: \<^verbatim>\<open>long\<close>, \<^verbatim>\<open>double\<close> and \<^verbatim>\<open>size_t\<close> have 64 bits,
  \<^verbatim>\<open>int\<close> and \<^verbatim>\<open>unsigned int\<close> have 32 bits, \<^verbatim>\<open>time_t\<close> counts whole seconds.

  \<^item> An object of static or heap storage is reached through an address.  Strings owned by
    the caller (labels, format strings, tumbler strings) live in a string memory that maps
    an address to the bytes before the terminating NUL.
  \<^item> The anonymous union \<^verbatim>\<open>{ long value; double percent; }\<close> is one 64-bit
    word.  Member \<^verbatim>\<open>value\<close> reads it as a two's complement integer, member
    \<^verbatim>\<open>percent\<close> reads it as a binary64 number.
  \<^item> Arithmetic on \<^verbatim>\<open>int\<close> and \<^verbatim>\<open>long\<close> is carried out in the integers; the
    conversions that change a value (\<^verbatim>\<open>unsigned int\<close> to \<^verbatim>\<open>int\<close>,
    \<^verbatim>\<open>int\<close> to \<^verbatim>\<open>size_t\<close>, \<^verbatim>\<open>double\<close> to \<^verbatim>\<open>int\<close>) are written out.
    Signed overflow (undefined in C) is not modelled.
  \<^item> A \<^verbatim>\<open>double\<close> that is stored is a bit pattern.  An operation on
    \<^verbatim>\<open>double\<close> is the exact operation on the real numbers followed by the rounding of
    binary64 (to nearest, ties to even, with gradual underflow), \<open>fl\<close>.
  \<^item> Where C leaves the behaviour undefined or leaves the finite numbers (a
    \<^verbatim>\<open>double\<close> converted to \<^verbatim>\<open>int\<close> outside the range of
    \<^verbatim>\<open>int\<close>, a result of magnitude \<open>2 ^ 1024\<close> or more, arithmetic on a NaN
    or an infinity) the functions of the model go on with the real number; an infinity, also
    the one that a division by zero gives, stands as a number of magnitude \<open>2 ^ 1024\<close>.
    For the fill count of \<^verbatim>\<open>progressbar_draw\<close> such an operand always ends in a
    conversion outside the range of \<^verbatim>\<open>int\<close> (lemma
    \<open>nonfinite_fill_not_int\<close>); for the remaining seconds \<open>double_finite\<close> and
    \<open>int_representable\<close> are the side conditions of the statement.  A comparison with
    a NaN is false, see \<open>double_nan\<close>.
\<close>

type_synonym addr = nat
type_synonym time_t = int

text \<open>The number denoted by a binary64 bit pattern: sign bit, 11 exponent bits, 52
  fraction bits.  The patterns with exponent 2047 (infinities and NaNs) are read like
  ordinary exponents; \<open>double_finite\<close> tells them apart.\<close>

definition double_val :: "64 word \<Rightarrow> real" where
  "double_val w =
     (let n = unat w;
          e = (n div 2 ^ 52) mod 2 ^ 11;
          m = n mod 2 ^ 52;
          mag = (if e = 0 then real m / 2 ^ 1074
                 else if e < 1075 then real (2 ^ 52 + m) / 2 ^ (1075 - e)
                 else real (2 ^ 52 + m) * 2 ^ (e - 1075))
      in if n div 2 ^ 63 = 1 then - mag else mag)"

definition double_finite :: "64 word \<Rightarrow> bool" where
  "double_finite w = ((unat w div 2 ^ 52) mod 2 ^ 11 < 2047)"

definition double_nan :: "64 word \<Rightarrow> bool" where
  "double_nan w = ((unat w div 2 ^ 52) mod 2 ^ 11 = 2047 \<and> unat w mod 2 ^ 52 \<noteq> 0)"

subsection \<open>Rounding to binary64\<close>

text \<open>\<open>pow2 k\<close> is \<open>2\<close> to the power \<open>k\<close>; \<open>rne\<close> rounds a real number to the nearest
  integer, a tie to the even one.  A positive number \<open>x\<close> with
  \<open>2 ^ e \<le> x < 2 ^ (e + 1)\<close> is rounded to a multiple of \<open>2 ^ (e - 52)\<close>, where \<open>e\<close>
  is not taken below \<open>-1022\<close> (the subnormal numbers are multiples of \<open>2 ^ -1074\<close>).
  \<open>binade\<close> computes this \<open>e\<close> from the number of binary digits, \<open>bitlen\<close>, of
  the integer part of \<open>x\<close> or of \<open>1 / x\<close>; it is the integer part of the binary
  logarithm of \<open>x\<close> (lemma \<open>binade_log\<close>).\<close>

definition pow2 :: "int \<Rightarrow> real" where
  "pow2 k = (if 0 \<le> k then 2 ^ nat k else 1 / 2 ^ nat (- k))"

definition rne :: "real \<Rightarrow> int" where
  "rne y =
     (let f = \<lfloor>y\<rfloor>; d = y - real_of_int f in
      if d < 1 / 2 then f
      else if 1 / 2 < d then f + 1
      else if even f then f
      else f + 1)"

definition binade :: "real \<Rightarrow> int" where
  "binade x =
     max (if 1 \<le> x then bitlen \<lfloor>x\<rfloor> - 1 else - bitlen (\<lceil>1 / x\<rceil> - 1)) (- 1022)"

definition round_pos :: "real \<Rightarrow> real" where
  "round_pos x = real_of_int (rne (x / pow2 (binade x - 52))) * pow2 (binade x - 52)"

definition fl :: "real \<Rightarrow> real" where
  "fl x = (if x = 0 then 0 else if x < 0 then - round_pos (- x) else round_pos x)"

text \<open>The conversion of a \<^verbatim>\<open>long\<close> to \<^verbatim>\<open>double\<close> rounds.\<close>

definition double_of_long :: "int \<Rightarrow> real" where
  "double_of_long i = fl (real_of_int i)"

subsection \<open>Conversions\<close>

text \<open>The bit patterns of the two double constants the library stores.\<close>

definition double_zero :: "64 word" where
  "double_zero = 0"

definition double_one :: "64 word" where
  "double_one = 0x3FF0000000000000"

text \<open>Conversion of a \<^verbatim>\<open>double\<close> to \<^verbatim>\<open>int\<close> discards the fractional part
  (truncation toward zero).  It is defined in C when the result is a value of
  \<^verbatim>\<open>int\<close>.\<close>

definition int_of_double :: "real \<Rightarrow> int" where
  "int_of_double d = (if d < 0 then \<lceil>d\<rceil> else \<lfloor>d\<rfloor>)"

definition int_representable :: "int \<Rightarrow> bool" where
  "int_representable i = (- (2 ^ 31) \<le> i \<and> i < 2 ^ 31)"

text \<open>Conversion of an \<^verbatim>\<open>int\<close> to \<^verbatim>\<open>size_t\<close> is reduction modulo \<open>2 ^ 64\<close>.\<close>

definition size_t_of_int :: "int \<Rightarrow> nat" where
  "size_t_of_int i = nat (i mod 2 ^ 64)"

text \<open>Integer division of C truncates toward zero.\<close>

definition c_div :: "int \<Rightarrow> int \<Rightarrow> int" where
  "c_div a b = sgn a * sgn b * (\<bar>a\<bar> div \<bar>b\<bar>)"

text \<open>\<^verbatim>\<open>difftime\<close> on a \<^verbatim>\<open>time_t\<close> that counts seconds: the difference as a
  \<^verbatim>\<open>double\<close>.\<close>

definition difftime :: "time_t \<Rightarrow> time_t \<Rightarrow> real" where
  "difftime t1 t0 = fl (real_of_int (t1 - t0))"

text \<open>Indexing a C string: position \<open>length s\<close> holds the terminating NUL; beyond it the
  read is outside the string and the model yields NUL as well.\<close>

definition cstr_nth :: "string \<Rightarrow> nat \<Rightarrow> char" where
  "cstr_nth s i = (if i < length s then s ! i else CHR 0x00)"

subsection \<open>The conversions of \<^verbatim>\<open>printf\<close> that the library uses\<close>

function dec :: "nat \<Rightarrow> string" where
  "dec n = (if n < 10 then [''0123456789'' ! n]
            else dec (n div 10) @ [''0123456789'' ! (n mod 10)])"
  by pat_completeness auto
termination
  by (relation "measure id") auto

declare dec.simps [simp del]

text \<open>\<^verbatim>\<open>%<width>d\<close> (padded with spaces on the left) and \<^verbatim>\<open>%0<width>d\<close> (padded
  with zeros after the sign).\<close>

definition printf_d :: "bool \<Rightarrow> nat \<Rightarrow> int \<Rightarrow> string" where
  "printf_d zero width n =
     (let sign = (if n < 0 then ''-'' else '''');
          digits = dec (nat \<bar>n\<bar>);
          pad = width - (length sign + length digits)
      in if zero then sign @ replicate pad (CHR ''0'') @ digits
         else replicate pad (CHR '' '') @ sign @ digits)"

section \<open>Constants and data of \<^verbatim>\<open>progressbar.c\<close>\<close>

definition DEFAULT_SCREEN_WIDTH :: int where
  "DEFAULT_SCREEN_WIDTH = 80"

definition MINIMUM_BAR_WIDTH :: int where
  "MINIMUM_BAR_WIDTH = 10"

definition ETA_FORMAT_LENGTH :: int where
  "ETA_FORMAT_LENGTH = 13"

definition WHITESPACE_LENGTH :: int where
  "WHITESPACE_LENGTH = 2"

definition BAR_BORDER_WIDTH :: int where
  "BAR_BORDER_WIDTH = 2"

text \<open>\<^verbatim>\<open>fprintf(stderr, ETA_FORMAT, h, m, s)\<close> with
  \<^verbatim>\<open>ETA_FORMAT = "ETA:%2dh%02dm%02ds"\<close>, and the same for
  \<^verbatim>\<open>ELAPSED_FORMAT = "    %2dh%02dm%02ds"\<close>.\<close>

definition ETA_FORMAT :: "int \<Rightarrow> int \<Rightarrow> int \<Rightarrow> string" where
  "ETA_FORMAT h m s =
     ''ETA:'' @ printf_d False 2 h @ ''h'' @ printf_d True 2 m @ ''m'' @ printf_d True 2 s @ ''s''"

definition ELAPSED_FORMAT :: "int \<Rightarrow> int \<Rightarrow> int \<Rightarrow> string" where
  "ELAPSED_FORMAT h m s =
     ''    '' @ printf_d False 2 h @ ''h'' @ printf_d True 2 m @ ''m'' @ printf_d True 2 s @ ''s''"

record progressbar_time_components =
  hours :: int
  minutes :: int
  seconds :: int

text \<open>The member \<^verbatim>\<open>format\<close> of the bar: \<^verbatim>\<open>begin\<close>, \<^verbatim>\<open>fill\<close>,
  \<^verbatim>\<open>unfilled\<close>, \<^verbatim>\<open>end\<close>.\<close>

record progressbar_format =
  begin_glyph :: char
  fill :: char
  unfilled :: char
  end_glyph :: char

text \<open>\<^verbatim>\<open>struct _progressbar_t\<close>.  \<open>pb_max\<close> is member \<^verbatim>\<open>max\<close>, \<open>store\<close> is the
  anonymous union, \<open>label\<close> and \<open>tumbler_format\<close> are pointers into the string memory
  (\<open>None\<close> is \<^verbatim>\<open>NULL\<close>).\<close>

record progressbar =
  pb_max :: int
  store :: "64 word"
  start :: time_t
  label :: addr
  format :: progressbar_format
  tumbler_format :: "addr option"
  tumbler_length :: nat
  tumbler_pos :: nat

definition pb_value :: "progressbar \<Rightarrow> int" where
  "pb_value bar = sint (store bar)"

definition pb_percent :: "progressbar \<Rightarrow> real" where
  "pb_percent bar = double_val (store bar)"

text \<open>What one call of a library function observes of its environment: the results of
  \<^verbatim>\<open>tgetent(termbuf, getenv("TERM"))\<close> and of \<^verbatim>\<open>tgetnum("co")\<close>, and the
  reading of \<^verbatim>\<open>time(NULL)\<close>.\<close>

record env =
  tgetent_result :: int
  tgetnum_co :: int
  time_now :: time_t

text \<open>The memory the library works on: the bars allocated with \<^verbatim>\<open>malloc\<close>, the
  caller's strings, and the bytes written to \<^verbatim>\<open>stderr\<close> so far.\<close>

record machine =
  heap :: "addr \<rightharpoonup> progressbar"
  mem :: "addr \<Rightarrow> string"
  stderr :: string

section \<open>The functions of \<^verbatim>\<open>progressbar.c\<close>\<close>

primrec progressbar_write_char :: "char \<Rightarrow> nat \<Rightarrow> string" where
  "progressbar_write_char ch 0 = []"
| "progressbar_write_char ch (Suc n) = ch # progressbar_write_char ch n"

definition progressbar_max :: "int \<Rightarrow> int \<Rightarrow> int" where
  "progressbar_max x y = (if x > y then x else y)"

text \<open>The result has type \<^verbatim>\<open>unsigned int\<close>: the \<^verbatim>\<open>int\<close> that
  \<^verbatim>\<open>tgetnum\<close> returns is converted on return.\<close>

definition get_screen_width :: "env \<Rightarrow> 32 word" where
  "get_screen_width e =
     (if tgetent_result e \<ge> 0 then word_of_int (tgetnum_co e)
      else word_of_int DEFAULT_SCREEN_WIDTH)"

definition progressbar_bar_width :: "int \<Rightarrow> int \<Rightarrow> int" where
  "progressbar_bar_width screen_width label_length =
     progressbar_max MINIMUM_BAR_WIDTH
       (screen_width - label_length - ETA_FORMAT_LENGTH - WHITESPACE_LENGTH)"

definition progressbar_label_width :: "int \<Rightarrow> int \<Rightarrow> int \<Rightarrow> int" where
  "progressbar_label_width screen_width label_length bar_width =
     (let eta_width = ETA_FORMAT_LENGTH in
      if label_length + 1 + bar_width + 1 + ETA_FORMAT_LENGTH > screen_width
      then progressbar_max 0 (screen_width - bar_width - eta_width - WHITESPACE_LENGTH)
      else label_length)"

definition progressbar_remaining_seconds :: "env \<Rightarrow> progressbar \<Rightarrow> int" where
  "progressbar_remaining_seconds e bar =
     (let offset = difftime (time_now e) (start bar) in
      if pb_value bar > 0 \<and> offset > 0 then
        (if pb_max bar < 0
         then int_of_double (fl (fl (offset / pb_percent bar) * fl (1 - pb_percent bar)))
         else int_of_double
                (fl (fl (offset / double_of_long (pb_value bar)) *
                     double_of_long (pb_max bar - pb_value bar))))
      else 0)"

definition progressbar_calc_time_components :: "int \<Rightarrow> progressbar_time_components" where
  "progressbar_calc_time_components secs =
     (let hours = c_div secs 3600;
          secs = secs - hours * 3600;
          minutes = c_div secs 60;
          secs = secs - minutes * 60
      in \<lparr>hours = hours, minutes = minutes, seconds = secs\<rparr>)"

subsection \<open>The local variables of \<^verbatim>\<open>progressbar_draw\<close>\<close>

text \<open>A comparison with a NaN is false.\<close>

definition progressbar_completed :: "progressbar \<Rightarrow> bool" where
  "progressbar_completed bar =
     (if pb_max bar < 0 then \<not> double_nan (store bar) \<and> pb_percent bar \<ge> 1
      else pb_value bar \<ge> pb_max bar)"

text \<open>The progress as a ratio: the parenthesised operand of the product in lines 246 to
  248.  With \<^verbatim>\<open>max\<close> zero the quotient is an infinity with the sign of
  \<^verbatim>\<open>value\<close>; at \<^verbatim>\<open>value\<close> zero it is a NaN, and the bar is then
  complete and the operand is not evaluated.\<close>

definition progress_ratio :: "progressbar \<Rightarrow> real" where
  "progress_ratio bar =
     (if pb_max bar < 0 then pb_percent bar
      else if pb_max bar = 0 then (if pb_value bar < 0 then - (2 ^ 1024) else 2 ^ 1024)
      else fl (double_of_long (pb_value bar) / double_of_long (pb_max bar)))"

text \<open>The product of lines 245 to 248, a \<^verbatim>\<open>double\<close>; an \<^verbatim>\<open>int\<close> converts
  to \<^verbatim>\<open>double\<close> without rounding.\<close>

definition piece_product :: "progressbar \<Rightarrow> int \<Rightarrow> real" where
  "piece_product bar bar_piece_count = fl (real_of_int bar_piece_count * progress_ratio bar)"

text \<open>\<^verbatim>\<open>bar_piece_current\<close> after its initialisation (lines 243 to 248).\<close>

definition bar_piece_raw :: "progressbar \<Rightarrow> int \<Rightarrow> int" where
  "bar_piece_raw bar bar_piece_count =
     (if progressbar_completed bar then bar_piece_count
      else int_of_double (piece_product bar bar_piece_count))"

text \<open>\<^verbatim>\<open>bar_piece_current\<close> after its second assignment (lines 249 to 253).\<close>

definition bar_piece_current :: "progressbar \<Rightarrow> int \<Rightarrow> int" where
  "bar_piece_current bar bar_piece_count =
     (let cur = bar_piece_raw bar bar_piece_count in
      if progressbar_completed bar \<or> tumbler_length bar = 0 then cur
      else if cur = 0 then cur
      else cur - 1)"

text \<open>The condition of line 272, under which the tumbler is written.\<close>

definition tumbler_drawn :: "progressbar \<Rightarrow> int \<Rightarrow> bool" where
  "tumbler_drawn bar bar_piece_count =
     (tumbler_length bar > 0 \<and> bar_piece_current bar bar_piece_count < bar_piece_count)"

text \<open>The third argument of the call in line 278, before its conversion to
  \<^verbatim>\<open>size_t\<close>.\<close>

definition unfilled_count :: "progressbar \<Rightarrow> int \<Rightarrow> int" where
  "unfilled_count bar bar_piece_count =
     bar_piece_count - bar_piece_current bar bar_piece_count -
       (if tumbler_length bar = 0 then 0
        else if bar_piece_current bar bar_piece_count = bar_piece_count then 0
        else 1)"

definition draw_eta :: "env \<Rightarrow> progressbar \<Rightarrow> progressbar_time_components" where
  "draw_eta e bar =
     (if progressbar_completed bar
      then progressbar_calc_time_components (int_of_double (difftime (time_now e) (start bar)))
      else progressbar_calc_time_components (progressbar_remaining_seconds e bar))"

text \<open>\<^verbatim>\<open>bar_width\<close> as it stands after line 262, where it is incremented when no
  label is printed.  Nothing reads the variable after that line.\<close>

definition draw_bar_width_final :: "int \<Rightarrow> int \<Rightarrow> int" where
  "draw_bar_width_final screen_width label_length =
     (let bar_width = progressbar_bar_width screen_width label_length;
          label_width = progressbar_label_width screen_width label_length bar_width
      in if label_width = 0 then bar_width + 1 else bar_width)"

subsection \<open>\<^verbatim>\<open>progressbar_draw\<close>\<close>

text \<open>The function reads the bar and the string memory, and yields the bar as it leaves
  it together with the bytes it has written to \<^verbatim>\<open>stderr\<close>.\<close>

definition progressbar_draw ::
  "env \<Rightarrow> (addr \<Rightarrow> string) \<Rightarrow> progressbar \<Rightarrow> progressbar \<times> string" where
  "progressbar_draw e sm bar =
     (let screen_width = sint (get_screen_width e);
          label_length = int (length (sm (label bar)));
          bar_width = progressbar_bar_width screen_width label_length;
          label_width = progressbar_label_width screen_width label_length bar_width;
          bar_piece_count = bar_width - BAR_BORDER_WIDTH;
          cur = bar_piece_current bar bar_piece_count;
          eta = draw_eta e bar;
          out_label =
            (if label_width = 0 then []
             else take (size_t_of_int label_width) (sm (label bar)) @ '' '');
          out_fill =
            [begin_glyph (format bar)] @
            progressbar_write_char (fill (format bar)) (size_t_of_int cur);
          out_tumbler =
            (if tumbler_drawn bar bar_piece_count
             then [case tumbler_format bar of
                     None \<Rightarrow> CHR 0x00
                   | Some t \<Rightarrow> cstr_nth (sm t) (tumbler_pos bar)]
             else []);
          bar' =
            (if tumbler_drawn bar bar_piece_count
             then bar\<lparr>tumbler_pos :=
                    ((tumbler_pos bar + 1) mod 2 ^ 32) mod tumbler_length bar\<rparr>
             else bar);
          out_unfilled =
            progressbar_write_char (unfilled (format bar))
              (size_t_of_int (unfilled_count bar bar_piece_count)) @
            [end_glyph (format bar)];
          out_eta =
            '' '' @
            (if progressbar_completed bar
             then ELAPSED_FORMAT (hours eta) (minutes eta) (seconds eta)
             else ETA_FORMAT (hours eta) (minutes eta) (seconds eta)) @
            [CHR 0x0D]
      in (bar', out_label @ out_fill @ out_tumbler @ out_unfilled @ out_eta))"

subsection \<open>Operations on a bar behind a pointer\<close>

text \<open>A call \<^verbatim>\<open>progressbar_draw(bar)\<close>: the bar behind the pointer is drawn and left as
  the function leaves it.  An operation on a pointer that is not a live bar has no defined
  behaviour: the model yields \<open>None\<close>.\<close>

definition call_draw :: "env \<Rightarrow> addr \<Rightarrow> machine \<Rightarrow> machine option" where
  "call_draw e bar m =
     (case heap m bar of
        None \<Rightarrow> None
      | Some b \<Rightarrow>
          (let (b', out) = progressbar_draw e (mem m) b
           in Some (m\<lparr>heap := (heap m)(bar \<mapsto> b'), stderr := stderr m @ out\<rparr>)))"

definition progressbar_update_label :: "addr \<Rightarrow> addr \<Rightarrow> machine \<Rightarrow> machine option" where
  "progressbar_update_label bar lbl m =
     (case heap m bar of
        None \<Rightarrow> None
      | Some b \<Rightarrow> Some (m\<lparr>heap := (heap m)(bar \<mapsto> b\<lparr>label := lbl\<rparr>)\<rparr>))"

definition progressbar_free :: "addr \<Rightarrow> machine \<Rightarrow> machine option" where
  "progressbar_free bar m =
     (case heap m bar of
        None \<Rightarrow> None
      | Some b \<Rightarrow> Some (m\<lparr>heap := (heap m)(bar := None)\<rparr>))"

definition progressbar_update :: "env \<Rightarrow> addr \<Rightarrow> int \<Rightarrow> machine \<Rightarrow> machine option" where
  "progressbar_update e bar v m =
     (case heap m bar of
        None \<Rightarrow> None
      | Some b \<Rightarrow> call_draw e bar (m\<lparr>heap := (heap m)(bar \<mapsto> b\<lparr>store := word_of_int v\<rparr>)\<rparr>))"

text \<open>The argument \<^verbatim>\<open>double percent\<close> is a binary64 bit pattern.\<close>

definition progressbar_update_percent ::
  "env \<Rightarrow> addr \<Rightarrow> 64 word \<Rightarrow> machine \<Rightarrow> machine option" where
  "progressbar_update_percent e bar percent m =
     (case heap m bar of
        None \<Rightarrow> None
      | Some b \<Rightarrow> call_draw e bar (m\<lparr>heap := (heap m)(bar \<mapsto> b\<lparr>store := percent\<rparr>)\<rparr>))"

definition progressbar_inc :: "env \<Rightarrow> addr \<Rightarrow> machine \<Rightarrow> machine option" where
  "progressbar_inc e bar m =
     (case heap m bar of
        None \<Rightarrow> None
      | Some b \<Rightarrow> progressbar_update e bar (pb_value b + 1) m)"

definition progressbar_finish :: "env \<Rightarrow> addr \<Rightarrow> machine \<Rightarrow> machine option" where
  "progressbar_finish e bar m =
     (case heap m bar of
        None \<Rightarrow> None
      | Some b \<Rightarrow>
          (let m1 = (if pb_max b < 0
                     then m\<lparr>heap := (heap m)(bar \<mapsto> b\<lparr>store := double_one\<rparr>)\<rparr>
                     else m)
           in case call_draw e bar m1 of
                None \<Rightarrow> None
              | Some m2 \<Rightarrow> progressbar_free bar (m2\<lparr>stderr := stderr m2 @ [CHR 0x0A]\<rparr>)))"

subsection \<open>Construction\<close>

text \<open>\<open>t0\<close> is the reading of \<^verbatim>\<open>time(NULL)\<close>, \<open>fmt\<close> the string behind the pointer
  \<^verbatim>\<open>format\<close> (the pointer is not kept).  The failing assertion ends the process: the
  result is \<open>None\<close>.\<close>

definition progressbar_assign_values ::
  "time_t \<Rightarrow> (addr \<Rightarrow> string) \<Rightarrow> progressbar \<Rightarrow> string \<Rightarrow> addr option \<Rightarrow> progressbar option"
where
  "progressbar_assign_values t0 sm bar fmt tumbler =
     (if 4 = length fmt
      then Some (bar\<lparr>start := t0,
                     format := \<lparr>begin_glyph = cstr_nth fmt 0, fill = cstr_nth fmt 1,
                                unfilled = cstr_nth fmt 2, end_glyph = cstr_nth fmt 3\<rparr>,
                     tumbler_format := tumbler,
                     tumbler_length := (case tumbler of None \<Rightarrow> 0 | Some t \<Rightarrow> length (sm t)),
                     tumbler_pos := 0\<rparr>)
      else None)"

text \<open>How a call of a constructor ends: with a \<^verbatim>\<open>return\<close> statement and its value
  (\<open>None\<close> is \<^verbatim>\<open>NULL\<close>), by reaching the closing brace of the function without one,
  or in \<^verbatim>\<open>abort\<close>.\<close>

datatype 'a outcome = Returns 'a | No_return | Aborted

text \<open>The statements that the four constructors share after their \<^verbatim>\<open>malloc\<close> and the
  assignment of \<^verbatim>\<open>max\<close> and of the union: \<^verbatim>\<open>progressbar_assign_values\<close>,
  \<^verbatim>\<open>progressbar_update_label\<close>, \<^verbatim>\<open>progressbar_draw\<close>.  \<open>blk\<close> is the
  allocated block with these two members assigned.\<close>

definition assign_label_draw ::
  "time_t \<Rightarrow> env \<Rightarrow> addr \<Rightarrow> progressbar \<Rightarrow> addr \<Rightarrow> string \<Rightarrow> addr option \<Rightarrow> machine \<Rightarrow>
   machine option"
where
  "assign_label_draw t0 e pb blk lbl fmt tumbler m =
     (case progressbar_assign_values t0 (mem m) blk fmt tumbler of
        None \<Rightarrow> None
      | Some b \<Rightarrow>
          Option.bind (progressbar_update_label pb lbl (m\<lparr>heap := (heap m)(pb \<mapsto> b)\<rparr>))
            (call_draw e pb))"

text \<open>\<open>alloc\<close> is the result of \<^verbatim>\<open>malloc\<close>: \<open>None\<close> for \<^verbatim>\<open>NULL\<close>, or the address
  of the block together with the indeterminate contents it starts with.\<close>

definition progressbar_new_with_format ::
  "time_t \<Rightarrow> env \<Rightarrow> (addr \<times> progressbar) option \<Rightarrow> addr \<Rightarrow> int \<Rightarrow> string \<Rightarrow> machine \<Rightarrow>
   addr option outcome \<times> machine"
where
  "progressbar_new_with_format t0 e alloc lbl mx fmt m =
     (case alloc of
        None \<Rightarrow> (Returns None, m)
      | Some (pb, junk) \<Rightarrow>
          (case assign_label_draw t0 e pb (junk\<lparr>pb_max := mx, store := word_of_int 0\<rparr>)
                  lbl fmt None m of
             None \<Rightarrow> (Aborted, m)
           | Some m' \<Rightarrow> (Returns (Some pb), m')))"

definition progressbar_new_percent_with_format ::
  "time_t \<Rightarrow> env \<Rightarrow> (addr \<times> progressbar) option \<Rightarrow> addr \<Rightarrow> string \<Rightarrow> machine \<Rightarrow>
   addr option outcome \<times> machine"
where
  "progressbar_new_percent_with_format t0 e alloc lbl fmt m =
     (case alloc of
        None \<Rightarrow> (Returns None, m)
      | Some (pb, junk) \<Rightarrow>
          (case assign_label_draw t0 e pb (junk\<lparr>pb_max := - 1, store := double_zero\<rparr>)
                  lbl fmt None m of
             None \<Rightarrow> (Aborted, m)
           | Some m' \<Rightarrow> (No_return, m')))"

definition progressbar_new_with_format_and_tumbler ::
  "time_t \<Rightarrow> env \<Rightarrow> (addr \<times> progressbar) option \<Rightarrow> addr \<Rightarrow> int \<Rightarrow> string \<Rightarrow> addr option \<Rightarrow>
   machine \<Rightarrow> addr option outcome \<times> machine"
where
  "progressbar_new_with_format_and_tumbler t0 e alloc lbl mx fmt tumbler m =
     (case alloc of
        None \<Rightarrow> (Returns None, m)
      | Some (pb, junk) \<Rightarrow>
          (case assign_label_draw t0 e pb (junk\<lparr>pb_max := mx, store := word_of_int 0\<rparr>)
                  lbl fmt tumbler m of
             None \<Rightarrow> (Aborted, m)
           | Some m' \<Rightarrow> (Returns (Some pb), m')))"

definition progressbar_new_percent_with_format_and_tumbler ::
  "time_t \<Rightarrow> env \<Rightarrow> (addr \<times> progressbar) option \<Rightarrow> addr \<Rightarrow> string \<Rightarrow> addr option \<Rightarrow>
   machine \<Rightarrow> addr option outcome \<times> machine"
where
  "progressbar_new_percent_with_format_and_tumbler t0 e alloc lbl fmt tumbler m =
     (case alloc of
        None \<Rightarrow> (Returns None, m)
      | Some (pb, junk) \<Rightarrow>
          (case assign_label_draw t0 e pb (junk\<lparr>pb_max := - 1, store := double_zero\<rparr>)
                  lbl fmt tumbler m of
             None \<Rightarrow> (Aborted, m)
           | Some m' \<Rightarrow> (Returns (Some pb), m')))"

text \<open>The two short forms return what the call they make hands back; where that call
  ends without a \<^verbatim>\<open>return\<close> statement there is no value to hand on.\<close>

definition progressbar_new ::
  "time_t \<Rightarrow> env \<Rightarrow> (addr \<times> progressbar) option \<Rightarrow> addr \<Rightarrow> int \<Rightarrow> machine \<Rightarrow>
   addr option outcome \<times> machine"
where
  "progressbar_new t0 e alloc lbl mx m = progressbar_new_with_format t0 e alloc lbl mx ''|= |'' m"

definition progressbar_new_percent ::
  "time_t \<Rightarrow> env \<Rightarrow> (addr \<times> progressbar) option \<Rightarrow> addr \<Rightarrow> machine \<Rightarrow>
   addr option outcome \<times> machine"
where
  "progressbar_new_percent t0 e alloc lbl m =
     progressbar_new_percent_with_format t0 e alloc lbl ''|= |'' m"

section \<open>Notions used in the statements\<close>

subsection \<open>The parts of one call of \<^verbatim>\<open>progressbar_draw\<close>\<close>

text \<open>The local variables \<^verbatim>\<open>screen_width\<close>, \<^verbatim>\<open>label_length\<close>,
  \<^verbatim>\<open>bar_width\<close> (as initialised), \<^verbatim>\<open>label_width\<close> and
  \<^verbatim>\<open>bar_piece_count\<close> as functions of what the call reads, and the bytes that the
  single output statements write.\<close>

definition draw_screen_width :: "env \<Rightarrow> int" where
  "draw_screen_width e = sint (get_screen_width e)"

definition draw_label_length :: "(addr \<Rightarrow> string) \<Rightarrow> progressbar \<Rightarrow> int" where
  "draw_label_length sm bar = int (length (sm (label bar)))"

definition draw_bar_width :: "env \<Rightarrow> (addr \<Rightarrow> string) \<Rightarrow> progressbar \<Rightarrow> int" where
  "draw_bar_width e sm bar =
     progressbar_bar_width (draw_screen_width e) (draw_label_length sm bar)"

definition draw_label_width :: "env \<Rightarrow> (addr \<Rightarrow> string) \<Rightarrow> progressbar \<Rightarrow> int" where
  "draw_label_width e sm bar =
     progressbar_label_width (draw_screen_width e) (draw_label_length sm bar)
       (draw_bar_width e sm bar)"

definition draw_piece_count :: "env \<Rightarrow> (addr \<Rightarrow> string) \<Rightarrow> progressbar \<Rightarrow> int" where
  "draw_piece_count e sm bar = draw_bar_width e sm bar - BAR_BORDER_WIDTH"

definition label_bytes :: "env \<Rightarrow> (addr \<Rightarrow> string) \<Rightarrow> progressbar \<Rightarrow> string" where
  "label_bytes e sm bar =
     (if draw_label_width e sm bar = 0 then []
      else take (size_t_of_int (draw_label_width e sm bar)) (sm (label bar)) @ '' '')"

definition tumbler_char :: "(addr \<Rightarrow> string) \<Rightarrow> progressbar \<Rightarrow> char" where
  "tumbler_char sm bar =
     (case tumbler_format bar of
        None \<Rightarrow> CHR 0x00
      | Some t \<Rightarrow> cstr_nth (sm t) (tumbler_pos bar))"

definition eta_bytes :: "env \<Rightarrow> progressbar \<Rightarrow> string" where
  "eta_bytes e bar =
     (if progressbar_completed bar
      then ELAPSED_FORMAT (hours (draw_eta e bar)) (minutes (draw_eta e bar))
             (seconds (draw_eta e bar))
      else ETA_FORMAT (hours (draw_eta e bar)) (minutes (draw_eta e bar))
             (seconds (draw_eta e bar)))"

text \<open>The number of fill glyphs and of unfilled glyphs that one call writes: the second
  arguments of the two calls of \<^verbatim>\<open>progressbar_write_char\<close>.\<close>

definition fill_glyphs :: "env \<Rightarrow> (addr \<Rightarrow> string) \<Rightarrow> progressbar \<Rightarrow> nat" where
  "fill_glyphs e sm bar = size_t_of_int (bar_piece_current bar (draw_piece_count e sm bar))"

definition unfilled_glyphs :: "env \<Rightarrow> (addr \<Rightarrow> string) \<Rightarrow> progressbar \<Rightarrow> nat" where
  "unfilled_glyphs e sm bar = size_t_of_int (unfilled_count bar (draw_piece_count e sm bar))"

text \<open>The cells of the bar that show progress: the fill glyphs, and the tumbler where it
  is written.\<close>

definition advanced_cells :: "env \<Rightarrow> (addr \<Rightarrow> string) \<Rightarrow> progressbar \<Rightarrow> nat" where
  "advanced_cells e sm bar =
     fill_glyphs e sm bar + (if tumbler_drawn bar (draw_piece_count e sm bar) then 1 else 0)"

subsection \<open>Expected states\<close>

text \<open>Progress within the expected range: a step count between 0 and the maximum, or a
  fraction between 0 and 1.\<close>

definition in_range :: "progressbar \<Rightarrow> bool" where
  "in_range bar =
     (if pb_max bar < 0 then 0 \<le> pb_percent bar \<and> pb_percent bar \<le> 1
      else 0 \<le> pb_value bar \<and> pb_value bar \<le> pb_max bar)"

text \<open>The visible width that the layout accounts for: the width of the bar as
  \<^verbatim>\<open>bar_width\<close> holds it at the end of the layout, the label with its blank when
  one is printed, one blank, and the time field.\<close>

definition layout_columns :: "env \<Rightarrow> (addr \<Rightarrow> string) \<Rightarrow> progressbar \<Rightarrow> int" where
  "layout_columns e sm bar =
     draw_bar_width_final (draw_screen_width e) (draw_label_length sm bar) +
     (if draw_label_width e sm bar > 0 then draw_label_width e sm bar + 1 else 0) +
     1 + ETA_FORMAT_LENGTH"

text \<open>The remaining seconds as the formulas of the specification give them, in exact
  arithmetic: \<open>(elapsed / value) * (max - value)\<close> in steps mode,
  \<open>(elapsed / fraction) * (1 - fraction)\<close> in percent mode, truncated, and 0 without
  progress or elapsed time.\<close>

definition spec_remaining_seconds :: "env \<Rightarrow> progressbar \<Rightarrow> int" where
  "spec_remaining_seconds e bar =
     (if pb_max bar < 0
      then (if 0 < pb_percent bar \<and> 0 < time_now e - start bar
            then int_of_double
                   ((real_of_int (time_now e - start bar) / pb_percent bar)
                    * (1 - pb_percent bar))
            else 0)
      else (if 0 < pb_value bar \<and> 0 < time_now e - start bar
            then int_of_double
                   ((real_of_int (time_now e - start bar) / real_of_int (pb_value bar))
                    * real_of_int (pb_max bar - pb_value bar))
            else 0))"

subsection \<open>Sample data\<close>

text \<open>A terminal of \<open>w\<close> columns at clock reading \<open>t\<close>; a string memory with some
  labels and the tumbler string \<^verbatim>\<open>/-\|\<close>; the default glyphs \<^verbatim>\<open>|= |\<close>; a bar in
  steps mode and one in percent mode, both started at clock reading 0.\<close>

definition sample_env :: "int \<Rightarrow> time_t \<Rightarrow> env" where
  "sample_env w t = \<lparr>tgetent_result = 1, tgetnum_co = w, time_now = t\<rparr>"

definition sample_mem :: "addr \<Rightarrow> string" where
  "sample_mem a =
     (if a = 1 then ''Emerging''
      else if a = 2 then [CHR ''/'', CHR ''-'', CHR 0x5C, CHR ''|'']
      else if a = 3 then ''X''
      else if a = 4 then ''Load''
      else if a = 5 then ''abcde''
      else [])"

definition sample_format :: progressbar_format where
  "sample_format =
     \<lparr>begin_glyph = CHR ''|'', fill = CHR ''='', unfilled = CHR '' '', end_glyph = CHR ''|''\<rparr>"

definition steps_bar :: "addr \<Rightarrow> int \<Rightarrow> int \<Rightarrow> progressbar" where
  "steps_bar lbl mx v =
     \<lparr>pb_max = mx, store = word_of_int v, start = 0, label = lbl, format = sample_format,
      tumbler_format = None, tumbler_length = 0, tumbler_pos = 0\<rparr>"

definition percent_bar :: "addr \<Rightarrow> 64 word \<Rightarrow> progressbar" where
  "percent_bar lbl d =
     \<lparr>pb_max = - 1, store = d, start = 0, label = lbl, format = sample_format,
      tumbler_format = None, tumbler_length = 0, tumbler_pos = 0\<rparr>"

definition with_tumbler :: "progressbar \<Rightarrow> progressbar" where
  "with_tumbler bar = bar\<lparr>tumbler_format := Some 2, tumbler_length := 4\<rparr>"

definition sample_machine :: "progressbar \<Rightarrow> machine" where
  "sample_machine bar = \<lparr>heap = [7 \<mapsto> bar], mem = sample_mem, stderr = ''compiling''\<rparr>"

section \<open>Basic facts\<close>

lemmas constants =
  DEFAULT_SCREEN_WIDTH_def MINIMUM_BAR_WIDTH_def ETA_FORMAT_LENGTH_def
  WHITESPACE_LENGTH_def BAR_BORDER_WIDTH_def

lemmas sample_defs =
  sample_env_def sample_mem_def sample_format_def steps_bar_def percent_bar_def
  with_tumbler_def sample_machine_def

subsection \<open>Rounding\<close>

lemma pow2_powr: "pow2 k = 2 powr real_of_int k"
  by (simp add: pow2_def powr_real_of_int field_simps)

lemma pow2_pos [simp]: "0 < pow2 k"
  by (simp add: pow2_powr)

lemma pow2_nonneg [simp]: "0 \<le> pow2 k"
  using pow2_pos [of k] by linarith

lemma pow2_neq_0 [simp]: "pow2 k \<noteq> 0"
  using pow2_pos [of k] by linarith

lemma pow2_add: "pow2 (a + b) = pow2 a * pow2 b"
  by (simp add: pow2_powr powr_add)

lemma pow2_mono: "a \<le> b \<Longrightarrow> pow2 a \<le> pow2 b"
  by (simp add: pow2_powr powr_mono)

lemma pow2_nat: "pow2 (int n) = 2 ^ n"
  by (simp add: pow2_def)

text \<open>The exponent is the integer part of the binary logarithm.\<close>

lemma floor_log2_large:
  assumes "1 \<le> x"
  shows "\<lfloor>log 2 x\<rfloor> = bitlen \<lfloor>x\<rfloor> - 1"
proof -
  define k where "k = bitlen \<lfloor>x\<rfloor> - 1"
  have pos: "0 < \<lfloor>x\<rfloor>"
    using assms by simp
  then have k0: "0 \<le> k"
    by (simp add: k_def bitlen_alt_def)
  from bitlen_bounds [OF pos] have b: "2 ^ nat k \<le> \<lfloor>x\<rfloor>" "\<lfloor>x\<rfloor> < 2 ^ nat (k + 1)"
    by (simp_all add: k_def)
  from b(1) have "real_of_int (2 ^ nat k) \<le> x"
    by (simp only: le_floor_iff)
  then have lo: "pow2 k \<le> x"
    using k0 by (simp add: pow2_def)
  from b(2) have "x < real_of_int (2 ^ nat (k + 1))"
    by (simp only: floor_less_iff)
  then have hi: "x < pow2 (k + 1)"
    using k0 by (simp add: pow2_def)
  from lo hi assms have "\<lfloor>log 2 x\<rfloor> = k"
    using floor_log_eq_powr_iff [of x 2 k] unfolding pow2_powr by simp
  then show ?thesis
    by (simp add: k_def)
qed

lemma floor_log2_small:
  assumes "0 < x" "x < 1"
  shows "\<lfloor>log 2 x\<rfloor> = - bitlen (\<lceil>1 / x\<rceil> - 1)"
proof -
  define n where "n = \<lceil>1 / x\<rceil>"
  define k where "k = bitlen (n - 1)"
  from assms have "1 < 1 / x"
    by simp
  then have "1 < n"
    by (simp add: n_def less_ceiling_iff)
  then have pos: "0 < n - 1"
    by simp
  then have k1: "1 \<le> k"
    by (simp add: k_def bitlen_alt_def)
  from bitlen_bounds [OF pos] have b: "2 ^ nat (k - 1) \<le> n - 1" "n - 1 < 2 ^ nat k"
    by (simp_all add: k_def)
  from b(2) have "n \<le> 2 ^ nat k"
    by simp
  then have "1 / x \<le> real_of_int (2 ^ nat k)"
    by (simp only: n_def ceiling_le_iff)
  then have "1 / x \<le> 2 ^ nat k"
    by simp
  with assms(1) have "1 / 2 ^ nat k \<le> x"
    by (simp add: field_simps)
  then have lo: "pow2 (- k) \<le> x"
    using k1 by (simp add: pow2_def)
  from b(1) have "2 ^ nat (k - 1) < n"
    by simp
  then have "real_of_int (2 ^ nat (k - 1)) < 1 / x"
    by (simp only: n_def less_ceiling_iff)
  then have "2 ^ nat (k - 1) < 1 / x"
    by simp
  with assms(1) have "x < 1 / 2 ^ nat (k - 1)"
    by (simp add: field_simps)
  moreover have "pow2 (- k + 1) = 1 / 2 ^ nat (k - 1)"
    using k1 by (cases "k = 1") (simp_all add: pow2_def)
  ultimately have hi: "x < pow2 (- k + 1)"
    by simp
  from lo hi assms have "\<lfloor>log 2 x\<rfloor> = - k"
    using floor_log_eq_powr_iff [of x 2 "- k"] unfolding pow2_powr by simp
  then show ?thesis
    by (simp add: k_def n_def)
qed

lemma binade_log: "0 < x \<Longrightarrow> binade x = max \<lfloor>log 2 x\<rfloor> (- 1022)"
  by (simp add: binade_def floor_log2_large floor_log2_small)

lemma rne_of_int [simp]: "rne (real_of_int n) = n"
  by (simp add: rne_def)

lemma rne_bounds: "\<lfloor>y\<rfloor> \<le> rne y" "rne y \<le> \<lfloor>y\<rfloor> + 1"
  by (simp_all add: rne_def Let_def)

lemma rne_mono:
  assumes "x \<le> y"
  shows "rne x \<le> rne y"
proof (cases "\<lfloor>x\<rfloor> = \<lfloor>y\<rfloor>")
  case False
  with assms have "\<lfloor>x\<rfloor> < \<lfloor>y\<rfloor>"
    using floor_mono [OF assms] by linarith
  with rne_bounds(2) [of x] rne_bounds(1) [of y] show ?thesis
    by linarith
next
  case True
  with assms have "x - real_of_int \<lfloor>x\<rfloor> \<le> y - real_of_int \<lfloor>y\<rfloor>"
    by simp
  with True show ?thesis
    by (auto simp: rne_def Let_def)
qed

lemma binade_bounds:
  assumes "0 < x"
  shows "x < pow2 (binade x + 1)" "- 1022 \<le> binade x"
    "pow2 (- 1022) \<le> x \<Longrightarrow> pow2 (binade x) \<le> x"
proof -
  define e where "e = \<lfloor>log 2 x\<rfloor>"
  have e: "pow2 e \<le> x" "x < pow2 (e + 1)"
    using floor_log_eq_powr_iff [of x 2 e] assms by (simp_all add: e_def pow2_powr)
  have "pow2 (e + 1) \<le> pow2 (binade x + 1)"
    using assms by (intro pow2_mono) (simp add: binade_log e_def)
  with e show "x < pow2 (binade x + 1)"
    by linarith
  show "- 1022 \<le> binade x"
    by (simp add: binade_def)
  show "pow2 (binade x) \<le> x" if "pow2 (- 1022) \<le> x"
  proof (cases "- 1022 \<le> e")
    case True
    with assms have "binade x = e" by (simp add: binade_log e_def)
    with e show ?thesis by simp
  next
    case False
    with assms have "binade x = - 1022" by (simp add: binade_log e_def)
    with that show ?thesis by simp
  qed
qed

lemma binade_mono:
  assumes "0 < x" "x \<le> y"
  shows "binade x \<le> binade y"
proof -
  from assms have "log 2 x \<le> log 2 y"
    by (intro log_mono) simp_all
  then have "\<lfloor>log 2 x\<rfloor> \<le> \<lfloor>log 2 y\<rfloor>"
    by (rule floor_mono)
  moreover from assms have "0 < y"
    by simp
  ultimately show ?thesis
    using assms(1) by (simp add: binade_log)
qed

lemma binade_normal:
  assumes "0 < x" "- 1022 < binade x"
  shows "pow2 (binade x) \<le> x"
proof -
  from assms have "binade x = \<lfloor>log 2 x\<rfloor>"
    by (simp add: binade_log max_def split: if_splits)
  then show ?thesis
    using floor_log_eq_powr_iff [of x 2 "binade x"] assms by (simp add: pow2_powr)
qed

lemma round_pos_nonneg: "0 < x \<Longrightarrow> 0 \<le> round_pos x"
proof -
  assume "0 < x"
  then have "0 \<le> x / pow2 (binade x - 52)" by simp
  then have "rne 0 \<le> rne (x / pow2 (binade x - 52))" by (rule rne_mono)
  then show ?thesis
    using rne_of_int [of 0] by (simp add: round_pos_def del: rne_of_int)
qed

lemma round_pos_upper:
  assumes "0 < x"
  shows "round_pos x \<le> pow2 (binade x + 1)"
proof -
  define k where "k = binade x - 52"
  have "x < pow2 (binade x + 1)"
    using assms by (rule binade_bounds)
  also have "pow2 (binade x + 1) = real_of_int (2 ^ 53) * pow2 k"
    using pow2_add [of 53 k] pow2_nat [of 53] by (simp add: k_def add.commute)
  finally have "x / pow2 k \<le> real_of_int (2 ^ 53)"
    by (simp add: pos_divide_le_eq)
  then have "rne (x / pow2 k) \<le> rne (real_of_int (2 ^ 53))"
    by (rule rne_mono)
  then have "rne (x / pow2 k) \<le> 2 ^ 53"
    by (simp only: rne_of_int)
  then have "real_of_int (rne (x / pow2 k)) \<le> real_of_int (2 ^ 53)"
    by (simp only: of_int_le_iff)
  then have "real_of_int (rne (x / pow2 k)) * pow2 k \<le> real_of_int (2 ^ 53) * pow2 k"
    by (intro mult_right_mono) simp_all
  also have "real_of_int (2 ^ 53) * pow2 k = pow2 (binade x + 1)"
    using pow2_add [of 53 k] pow2_nat [of 53] by (simp add: k_def add.commute)
  finally show ?thesis
    by (simp add: round_pos_def k_def)
qed

lemma round_pos_lower:
  assumes "0 < x" "- 1022 < binade x"
  shows "pow2 (binade x) \<le> round_pos x"
proof -
  define k where "k = binade x - 52"
  have "pow2 (binade x) \<le> x"
    using assms by (rule binade_normal)
  moreover have p: "pow2 (binade x) = real_of_int (2 ^ 52) * pow2 k"
    using pow2_add [of 52 k] pow2_nat [of 52] by (simp add: k_def)
  ultimately have "real_of_int (2 ^ 52) \<le> x / pow2 k"
    by (simp add: pos_le_divide_eq)
  then have "rne (real_of_int (2 ^ 52)) \<le> rne (x / pow2 k)"
    by (rule rne_mono)
  then have "2 ^ 52 \<le> rne (x / pow2 k)"
    by (simp only: rne_of_int)
  then have "real_of_int (2 ^ 52) \<le> real_of_int (rne (x / pow2 k))"
    by (simp only: of_int_le_iff)
  then have "real_of_int (2 ^ 52) * pow2 k \<le> real_of_int (rne (x / pow2 k)) * pow2 k"
    by (intro mult_right_mono) simp_all
  with p show ?thesis
    by (simp add: round_pos_def k_def)
qed

lemma round_pos_mono:
  assumes "0 < x" "x \<le> y"
  shows "round_pos x \<le> round_pos y"
proof (cases "binade x = binade y")
  case True
  from assms have "x / pow2 (binade y - 52) \<le> y / pow2 (binade y - 52)"
    by (simp add: divide_right_mono)
  then have "rne (x / pow2 (binade y - 52)) \<le> rne (y / pow2 (binade y - 52))"
    by (rule rne_mono)
  then have "real_of_int (rne (x / pow2 (binade y - 52))) * pow2 (binade y - 52)
      \<le> real_of_int (rne (y / pow2 (binade y - 52))) * pow2 (binade y - 52)"
    by (intro mult_right_mono) simp_all
  with True show ?thesis
    by (simp add: round_pos_def)
next
  case False
  with assms have lt: "binade x < binade y"
    using binade_mono [of x y] by simp
  from assms have y: "0 < y" by simp
  have "- 1022 \<le> binade x"
    by (simp add: binade_def)
  with lt have "- 1022 < binade y" by simp
  with y have "pow2 (binade y) \<le> round_pos y"
    by (rule round_pos_lower)
  moreover have "round_pos x \<le> pow2 (binade x + 1)"
    using assms(1) by (rule round_pos_upper)
  moreover have "pow2 (binade x + 1) \<le> pow2 (binade y)"
    using lt by (intro pow2_mono) simp
  ultimately show ?thesis
    by linarith
qed

lemma fl_mono:
  assumes "x \<le> y"
  shows "fl x \<le> fl y"
proof -
  consider "0 < x" | "x \<le> 0" "0 \<le> y" | "y < 0"
    by linarith
  then show ?thesis
  proof cases
    case 1
    with assms show ?thesis
      by (simp add: fl_def round_pos_mono)
  next
    case 2
    have "fl x \<le> 0"
      using 2 round_pos_nonneg [of "- x"] by (cases "x = 0") (simp_all add: fl_def)
    moreover have "0 \<le> fl y"
      using 2 round_pos_nonneg [of y] by (simp add: fl_def)
    ultimately show ?thesis by simp
  next
    case 3
    with assms have "round_pos (- y) \<le> round_pos (- x)"
      by (intro round_pos_mono) simp_all
    with 3 assms show ?thesis
      by (simp add: fl_def)
  qed
qed


lemma binade_eqI:
  assumes "pow2 e \<le> x" "x < pow2 (e + 1)" "- 1022 \<le> e"
  shows "binade x = e"
proof -
  have "0 < pow2 e" by simp
  with assms have "0 < x" by linarith
  then have "\<lfloor>log 2 x\<rfloor> = e"
    using floor_log_eq_powr_iff [of x 2 e] assms by (simp add: pow2_powr)
  with assms \<open>0 < x\<close> show ?thesis
    by (simp add: binade_log)
qed

lemma round_pos_eval:
  assumes "pow2 e \<le> x" "x < pow2 (e + 1)" "- 1022 \<le> e"
  shows "round_pos x = real_of_int (rne (x / pow2 (e - 52))) * pow2 (e - 52)"
  using binade_eqI [OF assms] by (simp add: round_pos_def)

lemma round_pos_representable:
  assumes "0 < m" "m < 2 ^ 53" "- 1074 \<le> k"
  shows "round_pos (real_of_int m * pow2 k) = real_of_int m * pow2 k"
proof -
  define x where "x = real_of_int m * pow2 k"
  define j where "j = binade x - 52"
  have x: "0 < x"
    using assms by (simp add: x_def)
  have "j \<le> k"
  proof (cases "- 1022 < binade x")
    case False
    then have "binade x = - 1022"
      using binade_bounds(2) [OF x] by simp
    with assms show ?thesis by (simp add: j_def)
  next
    case True
    with x have "pow2 (binade x) \<le> x"
      by (rule binade_normal)
    also have "x < real_of_int (2 ^ 53) * pow2 k"
      unfolding x_def using assms by (intro mult_strict_right_mono) simp_all
    also have "\<dots> = pow2 (53 + k)"
      using pow2_add [of 53 k] pow2_nat [of 53] by simp
    finally have "binade x < 53 + k"
      using pow2_mono [of "53 + k" "binade x"] by (cases "binade x < 53 + k") simp_all
    then show ?thesis by (simp add: j_def)
  qed
  then have "pow2 k = real_of_int (2 ^ nat (k - j)) * pow2 j"
    using pow2_add [of "k - j" j] pow2_nat [of "nat (k - j)"] by simp
  then have "x / pow2 j = real_of_int (m * 2 ^ nat (k - j))"
    by (simp add: x_def)
  then have "rne (x / pow2 j) = m * 2 ^ nat (k - j)"
    by (simp only: rne_of_int)
  then have "round_pos x = real_of_int (m * 2 ^ nat (k - j)) * pow2 j"
    by (simp add: round_pos_def j_def)
  also have "\<dots> = x"
    using \<open>pow2 k = real_of_int (2 ^ nat (k - j)) * pow2 j\<close> by (simp add: x_def)
  finally show ?thesis
    by (simp add: x_def)
qed

lemma fl_representable:
  assumes "\<bar>m\<bar> < 2 ^ 53" "- 1074 \<le> k"
  shows "fl (real_of_int m * pow2 k) = real_of_int m * pow2 k"
proof -
  consider "m = 0" | "0 < m" | "m < 0" by linarith
  then show ?thesis
  proof cases
    case 1
    then show ?thesis by (simp add: fl_def)
  next
    case 2
    with assms have "round_pos (real_of_int m * pow2 k) = real_of_int m * pow2 k"
      by (intro round_pos_representable) simp_all
    moreover from 2 have "0 < real_of_int m * pow2 k" by simp
    ultimately show ?thesis by (simp add: fl_def)
  next
    case 3
    with assms have "round_pos (real_of_int (- m) * pow2 k) = real_of_int (- m) * pow2 k"
      by (intro round_pos_representable) simp_all
    moreover from 3 have "real_of_int m * pow2 k < 0"
      by (simp add: mult_neg_pos)
    ultimately show ?thesis by (simp add: fl_def)
  qed
qed

lemma fl_of_int:
  assumes "\<bar>n\<bar> < 2 ^ 53"
  shows "fl (real_of_int n) = real_of_int n"
  using fl_representable [of n 0] assms by (simp add: pow2_def)

lemma fl_dyadic:
  assumes "\<bar>m\<bar> < 2 ^ 53" "k \<le> 1074"
  shows "fl (real_of_int m / 2 ^ k) = real_of_int m / 2 ^ k"
proof -
  have "pow2 (- int k) = 1 / 2 ^ k"
    by (simp add: pow2_def)
  with fl_representable [of m "- int k"] assms show ?thesis
    by simp
qed

lemma fl_0 [simp]: "fl 0 = 0"
  by (simp add: fl_def)

lemma fl_nonneg: "0 \<le> x \<Longrightarrow> 0 \<le> fl x"
  using fl_mono [of 0 x] by simp

lemma fl_nonpos: "x \<le> 0 \<Longrightarrow> fl x \<le> 0"
  using fl_mono [of x 0] by simp

lemma fl_le_of_int: "x \<le> real_of_int n \<Longrightarrow> \<bar>n\<bar> < 2 ^ 53 \<Longrightarrow> fl x \<le> real_of_int n"
  using fl_mono [of x "real_of_int n"] by (simp add: fl_of_int)

lemma fl_ge_of_int: "real_of_int n \<le> x \<Longrightarrow> \<bar>n\<bar> < 2 ^ 53 \<Longrightarrow> real_of_int n \<le> fl x"
  using fl_mono [of "real_of_int n" x] by (simp add: fl_of_int)

lemma fl_1 [simp]: "fl 1 = 1"
  using fl_of_int [of 1] by simp

lemma fl_numeral [simp]: "(numeral n :: int) < 2 ^ 53 \<Longrightarrow> fl (numeral n) = numeral n"
  using fl_of_int [of "numeral n"] by simp

lemma fl_neg_numeral [simp]:
  "(numeral n :: int) < 2 ^ 53 \<Longrightarrow> fl (- numeral n) = - numeral n"
  using fl_of_int [of "- numeral n"] by simp

lemma double_of_long_nonneg: "0 \<le> i \<Longrightarrow> 0 \<le> double_of_long i"
  by (simp add: double_of_long_def fl_nonneg)

lemma double_of_long_mono: "i \<le> j \<Longrightarrow> double_of_long i \<le> double_of_long j"
  by (simp add: double_of_long_def fl_mono)

lemma double_of_long_ge_1: "1 \<le> i \<Longrightarrow> 1 \<le> double_of_long i"
  using double_of_long_mono [of 1 i] by (simp add: double_of_long_def)

subsection \<open>Conversions, widths and the union\<close>

lemma write_char_replicate: "progressbar_write_char ch n = replicate n ch"
  by (induction n) simp_all

lemma progressbar_draw_parts:
  "progressbar_draw e sm bar =
     (if tumbler_drawn bar (draw_piece_count e sm bar)
      then bar\<lparr>tumbler_pos := ((tumbler_pos bar + 1) mod 2 ^ 32) mod tumbler_length bar\<rparr>
      else bar,
      label_bytes e sm bar
      @ [begin_glyph (format bar)]
      @ replicate (fill_glyphs e sm bar) (fill (format bar))
      @ (if tumbler_drawn bar (draw_piece_count e sm bar) then [tumbler_char sm bar] else [])
      @ replicate (unfilled_glyphs e sm bar) (unfilled (format bar))
      @ [end_glyph (format bar)]
      @ '' '' @ eta_bytes e bar @ [CHR 0x0D])"
  by (simp add: progressbar_draw_def Let_def write_char_replicate draw_piece_count_def
      draw_bar_width_def draw_screen_width_def draw_label_length_def label_bytes_def
      draw_label_width_def fill_glyphs_def unfilled_glyphs_def tumbler_char_def eta_bytes_def)

lemma int_of_double_of_int: "int_of_double (real_of_int n) = n"
  by (simp add: int_of_double_def)

lemma int_of_double_nonneg: "0 \<le> d \<Longrightarrow> 0 \<le> int_of_double d"
  by (simp add: int_of_double_def)

lemma int_of_double_mono:
  assumes "x \<le> y"
  shows "int_of_double x \<le> int_of_double y"
proof (cases "x < 0"; cases "y < 0")
  assume "x < 0" "\<not> y < 0"
  then have "\<lceil>x\<rceil> \<le> 0" "0 \<le> \<lfloor>y\<rfloor>"
    by (simp_all add: ceiling_le_zero)
  moreover have "int_of_double x = \<lceil>x\<rceil>" "int_of_double y = \<lfloor>y\<rfloor>"
    using \<open>x < 0\<close> \<open>\<not> y < 0\<close> by (simp_all add: int_of_double_def)
  ultimately show ?thesis
    by linarith
qed (use assms in \<open>auto simp: int_of_double_def intro: floor_mono ceiling_mono\<close>)

lemma int_of_double_le: "0 \<le> d \<Longrightarrow> d \<le> real_of_int n \<Longrightarrow> int_of_double d \<le> n"
  using int_of_double_mono [of d "real_of_int n"] by (simp add: int_of_double_of_int)

lemma int_of_double_less: "0 \<le> d \<Longrightarrow> d < real_of_int n \<Longrightarrow> int_of_double d < n"
  by (simp add: int_of_double_def floor_less_iff)

lemma size_t_of_int_id: "0 \<le> i \<Longrightarrow> i < 2 ^ 64 \<Longrightarrow> size_t_of_int i = nat i"
  by (simp add: size_t_of_int_def)

lemma bar_width_ge: "10 \<le> progressbar_bar_width sw ll"
  by (simp add: progressbar_bar_width_def progressbar_max_def constants)

lemma draw_screen_width_range: "- (2 ^ 31) \<le> draw_screen_width e" "draw_screen_width e < 2 ^ 31"
  using sint_range_size [of "get_screen_width e"] by (simp_all add: draw_screen_width_def word_size)

lemma draw_piece_count_range: "8 \<le> draw_piece_count e sm bar" "draw_piece_count e sm bar < 2 ^ 31"
  using draw_screen_width_range [of e] bar_width_ge [of "draw_screen_width e" "draw_label_length sm bar"]
  by (simp_all add: draw_piece_count_def draw_bar_width_def progressbar_bar_width_def
      progressbar_max_def constants draw_label_length_def)

lemma sint_64_cases: "sint w = (if uint w < 2 ^ 63 then uint w else uint w - 2 ^ 64)" for w :: "64 word"
proof -
  have range: "0 \<le> uint w" "uint w < 2 ^ 64"
    using uint_bounded [of w] by simp_all
  have eq: "sint w = (uint w + 2 ^ 63) mod 2 ^ 64 - 2 ^ 63"
    by (simp add: sint_uint signed_take_bit_eq_take_bit_shift take_bit_eq_mod)
  show ?thesis
  proof (cases "uint w < 2 ^ 63")
    case True
    with range have "(uint w + 2 ^ 63) mod 2 ^ 64 = uint w + 2 ^ 63"
      by (intro mod_pos_pos_trivial) simp_all
    with True eq show ?thesis by simp
  next
    case False
    have "uint w + 2 ^ 63 = (uint w - 2 ^ 63) + 2 ^ 64"
      by simp
    then have "(uint w + 2 ^ 63) mod 2 ^ 64 = ((uint w - 2 ^ 63) + 2 ^ 64) mod 2 ^ 64"
      by (simp only:)
    also have "\<dots> = (uint w - 2 ^ 63) mod 2 ^ 64"
      by (simp only: mod_add_self2)
    also have "\<dots> = uint w - 2 ^ 63"
      using False range by (intro mod_pos_pos_trivial) simp_all
    finally show ?thesis
      using False eq by simp
  qed
qed

lemma unat_64_split:
  fixes w :: "64 word"
  assumes "unat w < 2 ^ 63"
  shows "unat w = ((unat w div 2 ^ 52) mod 2 ^ 11) * 2 ^ 52 + unat w mod 2 ^ 52"
proof -
  have "unat w div 2 ^ 52 < 2 ^ 11"
    using assms by (simp add: less_mult_imp_div_less)
  then have "(unat w div 2 ^ 52) mod 2 ^ 11 = unat w div 2 ^ 52"
    by simp
  then show ?thesis
    by simp
qed

lemma double_val_pos_iff:
  "0 < double_val w \<longleftrightarrow> 0 < unat w \<and> unat w < 2 ^ 63"
proof -
  define n where "n = unat w"
  define ex where "ex = (n div 2 ^ 52) mod 2 ^ 11"
  define m where "m = n mod 2 ^ 52"
  define mag :: real where
    "mag = (if ex = 0 then real m / 2 ^ 1074
            else if ex < 1075 then real (2 ^ 52 + m) / 2 ^ (1075 - ex)
            else real (2 ^ 52 + m) * 2 ^ (ex - 1075))"
  have n64: "n < 2 ^ 64"
    using unsigned_less [of w, where ?'a = nat] by (simp add: n_def)
  have val: "double_val w = (if n div 2 ^ 63 = 1 then - mag else mag)"
    by (simp add: double_val_def Let_def n_def ex_def m_def mag_def)
  have mag0: "0 \<le> mag"
    by (simp add: mag_def)
  have magpos: "0 < mag \<longleftrightarrow> ex \<noteq> 0 \<or> m \<noteq> 0"
    by (auto simp: mag_def)
  have hi: "n div 2 ^ 63 = 1 \<longleftrightarrow> \<not> n < 2 ^ 63"
    using n64 by (auto simp: div_eq_0_iff) 
  show ?thesis
  proof (cases "n < 2 ^ 63")
    case True
    then have "n = ex * 2 ^ 52 + m"
      using unat_64_split [of w] by (simp add: n_def ex_def m_def)
    then have "0 < n \<longleftrightarrow> ex \<noteq> 0 \<or> m \<noteq> 0"
      by auto
    with True val hi magpos show ?thesis
      by (simp add: n_def)
  next
    case False
    with val hi mag0 show ?thesis
      by (simp add: n_def)
  qed
qed

lemma pun_sign: "0 < sint w \<longleftrightarrow> 0 < double_val w" for w :: "64 word"
proof -
  have "0 < sint w \<longleftrightarrow> 0 < uint w \<and> uint w < 2 ^ 63"
    using uint_bounded [of w] by (simp add: sint_64_cases)
  also have "\<dots> \<longleftrightarrow> 0 < unat w \<and> unat w < 2 ^ 63"
  proof -
    have u: "uint w = int (unat w)"
      by simp
    have "int (unat w) < int (2 ^ 63) \<longleftrightarrow> unat w < 2 ^ 63"
      by (rule of_nat_less_iff)
    moreover have "int (2 ^ 63) = 2 ^ 63"
      by simp
    ultimately have "uint w < 2 ^ 63 \<longleftrightarrow> unat w < 2 ^ 63"
      by (simp only: u)
    moreover have "0 < uint w \<longleftrightarrow> 0 < unat w"
      by (simp only: u of_nat_0_less_iff)
    ultimately show ?thesis
      by (simp only:)
  qed
  finally show ?thesis
    by (simp add: double_val_pos_iff)
qed

lemma call_draw_Some:
  "heap m bar = Some b \<Longrightarrow>
   call_draw e bar m =
     Some (m\<lparr>heap := (heap m)(bar \<mapsto> fst (progressbar_draw e (mem m) b)),
             stderr := stderr m @ snd (progressbar_draw e (mem m) b)\<rparr>)"
  by (simp add: call_draw_def split: prod.splits)

lemma draw_ends_with_cr: "last (snd (progressbar_draw e sm bar)) = CHR 0x0D"
  by (simp add: progressbar_draw_def Let_def)

lemma double_val_one: "double_val double_one = 1"
  by (simp add: double_val_def double_one_def)

subsection \<open>Values of the rounding\<close>

lemma fl_minus: "fl (- x) = - fl x"
  by (simp add: fl_def)

lemma fl_minus_1: "fl (- 1) = - 1"
  using fl_of_int [of "- 1"] by simp

lemma double_of_long_0: "double_of_long 0 = 0"
  by (simp add: double_of_long_def)

lemma fl_eval_pos:
  assumes "pow2 e \<le> x" "x < pow2 (e + 1)" "- 1022 \<le> e" "rne (x / pow2 (e - 52)) = n"
  shows "fl x = real_of_int n * pow2 (e - 52)"
proof -
  have "0 < pow2 e" by simp
  with assms(1) have "0 < x" by linarith
  with round_pos_eval [OF assms(1-3)] assms(4) show ?thesis
    by (simp add: fl_def)
qed

text \<open>Numbers with a short binary expansion are not changed by the rounding.\<close>

lemma fl_samples:
  "fl (1 / 2) = 1 / 2" "fl (1 / 4) = 1 / 4" "fl (1 / 8) = 1 / 8" "fl (3 / 4) = 3 / 4"
  "fl (31 / 4) = 31 / 4" "fl (59 / 4) = 59 / 4" "fl (3 / 2) = 3 / 2"
  "fl (- (1 / 2)) = - (1 / 2)" "fl (- (55 / 2)) = - (55 / 2)"
  "fl (- (1 / 128)) = - (1 / 128)" "fl (- (55 / 128)) = - (55 / 128)"
  "fl (- (1 / 1024)) = - (1 / 1024)" "fl (- (59 / 1024)) = - (59 / 1024)"
  using fl_dyadic [of 1 1] fl_dyadic [of 1 2] fl_dyadic [of 1 3] fl_dyadic [of 3 2]
    fl_dyadic [of 31 2] fl_dyadic [of 59 2] fl_dyadic [of 3 1]
    fl_dyadic [of "- 1" 1] fl_dyadic [of "- 55" 1] fl_dyadic [of "- 1" 7]
    fl_dyadic [of "- 55" 7] fl_dyadic [of "- 1" 10] fl_dyadic [of "- 59" 10]
  by simp_all

text \<open>Quotients and differences that are rounded, and their products.\<close>

lemma fl_3_11:
  "fl (3 / 11) = 1228254443828317 / 4503599627370496"
  using fl_eval_pos [of "- 2" "3 / 11" 4913017775313268]
  by (simp add: pow2_def rne_def)

lemma fl_3_11_times_55:
  "fl (67553994410557435 / 4503599627370496) = 8444249301319679 / 562949953421312"
  using fl_eval_pos [of 3 "67553994410557435 / 4503599627370496" 8444249301319679]
  by (simp add: pow2_def rne_def)

lemma fl_1_10:
  "fl (1 / 10) = 3602879701896397 / 36028797018963968"
  using fl_eval_pos [of "- 4" "1 / 10" 7205759403792794]
  by (simp add: pow2_def rne_def)

lemma fl_62_times_1_10:
  "fl (111689270758788307 / 18014398509481984) = 6980579422424269 / 1125899906842624"
  using fl_eval_pos [of 2 "111689270758788307 / 18014398509481984" 6980579422424269]
  by (simp add: pow2_def rne_def)

lemma fl_10_tenth:
  "fl (36028797018963968 / 3602879701896397) = 10"
  using fl_eval_pos [of 3 "36028797018963968 / 3602879701896397" 5629499534213120]
  by (simp add: pow2_def rne_def)

lemma fl_1_minus_tenth:
  "fl (32425917317067571 / 36028797018963968) = 8106479329266893 / 9007199254740992"
  using fl_eval_pos [of "- 1" "32425917317067571 / 36028797018963968" 8106479329266893]
  by (simp add: pow2_def rne_def)

lemma fl_10_times_9_10:
  "fl (40532396646334465 / 4503599627370496) = 9"
  using fl_eval_pos [of 3 "40532396646334465 / 4503599627370496" 5066549580791808]
  by (simp add: pow2_def rne_def)

lemma fl_55_times_6_10:
  "fl (297237575406452725 / 9007199254740992) = 33"
  using fl_eval_pos [of 5 "297237575406452725 / 9007199254740992" 4644337115725824]
  by (simp add: pow2_def rne_def)

lemma fl_55_times_1_55:
  "fl (- (144115188075855865 / 144115188075855872)) = - 1"
  using fl_eval_pos [of "- 1" "144115188075855865 / 144115188075855872" 9007199254740992]
  by (simp add: pow2_def rne_def fl_minus)

subsection \<open>The progress ratio and the fill count\<close>

lemma progress_ratio_range:
  assumes "in_range bar" "\<not> progressbar_completed bar"
  shows "0 \<le> progress_ratio bar \<and> progress_ratio bar \<le> 1"
proof (cases "pb_max bar < 0")
  case True
  with assms(1) show ?thesis
    by (simp add: in_range_def progress_ratio_def)
next
  case False
  with assms have v: "0 \<le> pb_value bar" "pb_value bar < pb_max bar"
    by (simp_all add: in_range_def progressbar_completed_def)
  then have m: "1 \<le> double_of_long (pb_max bar)"
    by (intro double_of_long_ge_1) simp
  from v have n: "0 \<le> double_of_long (pb_value bar)"
    "double_of_long (pb_value bar) \<le> double_of_long (pb_max bar)"
    by (simp_all add: double_of_long_nonneg double_of_long_mono)
  with m have q: "0 \<le> double_of_long (pb_value bar) / double_of_long (pb_max bar)"
    "double_of_long (pb_value bar) / double_of_long (pb_max bar) \<le> real_of_int 1"
    by (simp_all add: divide_le_eq_1)
  from q(1) have "0 \<le> fl (double_of_long (pb_value bar) / double_of_long (pb_max bar))"
    by (rule fl_nonneg)
  moreover from q(2)
  have "fl (double_of_long (pb_value bar) / double_of_long (pb_max bar)) \<le> real_of_int 1"
    by (rule fl_le_of_int) simp
  ultimately show ?thesis
    using False v by (simp add: progress_ratio_def)
qed

lemma piece_product_range:
  assumes "in_range bar" "\<not> progressbar_completed bar" "0 \<le> c" "c < 2 ^ 53"
  shows "0 \<le> piece_product bar c" "piece_product bar c \<le> real_of_int c"
proof -
  from assms have r: "0 \<le> progress_ratio bar" "progress_ratio bar \<le> 1"
    by (simp_all add: progress_ratio_range)
  with assms have p: "0 \<le> real_of_int c * progress_ratio bar"
    "real_of_int c * progress_ratio bar \<le> real_of_int c"
    by (simp_all add: mult_left_le)
  from p(1) show "0 \<le> piece_product bar c"
    by (simp add: piece_product_def fl_nonneg)
  from p(2) assms show "piece_product bar c \<le> real_of_int c"
    unfolding piece_product_def by (intro fl_le_of_int) simp_all
qed

lemma bar_piece_raw_range:
  assumes "in_range bar" "0 \<le> c" "c < 2 ^ 53"
  shows "0 \<le> bar_piece_raw bar c" "bar_piece_raw bar c \<le> c"
proof -
  show "0 \<le> bar_piece_raw bar c"
    using assms piece_product_range(1) [of bar c]
    by (auto simp: bar_piece_raw_def intro!: int_of_double_nonneg)
  show "bar_piece_raw bar c \<le> c"
  proof (cases "progressbar_completed bar")
    case True
    then show ?thesis by (simp add: bar_piece_raw_def)
  next
    case False
    with assms have "0 \<le> piece_product bar c" "piece_product bar c \<le> real_of_int c"
      by (simp_all add: piece_product_range)
    then have "int_of_double (piece_product bar c) \<le> c"
      by (rule int_of_double_le)
    with False show ?thesis by (simp add: bar_piece_raw_def)
  qed
qed

lemma steps_in_range:
  assumes "0 \<le> pb_max bar" "0 \<le> pb_value bar" "\<not> progressbar_completed bar"
  shows "in_range bar"
  using assms by (simp add: in_range_def progressbar_completed_def)

text \<open>The number of advanced cells of a bar in steps mode with a non-negative value.\<close>

lemma advanced_cells_steps:
  assumes "0 \<le> pb_max bar" "0 \<le> pb_value bar"
  shows "int (advanced_cells e sm bar) =
     (if progressbar_completed bar then draw_piece_count e sm bar
      else if tumbler_length bar = 0 then bar_piece_raw bar (draw_piece_count e sm bar)
      else max 1 (bar_piece_raw bar (draw_piece_count e sm bar)))"
proof -
  define c where "c = draw_piece_count e sm bar"
  have c: "8 \<le> c" "c < 2 ^ 64" "c < 2 ^ 53"
    using draw_piece_count_range [of e sm bar] by (simp_all add: c_def)
  show ?thesis
  proof (cases "progressbar_completed bar")
    case True
    with c show ?thesis
      by (simp add: advanced_cells_def fill_glyphs_def tumbler_drawn_def bar_piece_current_def
          bar_piece_raw_def size_t_of_int_id flip: c_def)
  next
    case False
    with assms have "in_range bar"
      by (rule steps_in_range)
    with c have raw: "0 \<le> bar_piece_raw bar c" "bar_piece_raw bar c \<le> c"
      by (simp_all add: bar_piece_raw_range)
    with c have "bar_piece_raw bar c < 2 ^ 64" "bar_piece_raw bar c - 1 < 2 ^ 64"
      by simp_all
    with False raw c show ?thesis
      by (auto simp: advanced_cells_def fill_glyphs_def tumbler_drawn_def bar_piece_current_def
          Let_def size_t_of_int_id simp flip: c_def)
  qed
qed

lemma bar_piece_raw_mono:
  assumes "0 \<le> pb_max bar" "0 \<le> pb_value bar" "pb_value bar \<le> sint s"
    and "\<not> progressbar_completed (bar\<lparr>store := s\<rparr>)" "0 \<le> c"
  shows "bar_piece_raw bar c \<le> bar_piece_raw (bar\<lparr>store := s\<rparr>) c"
proof -
  from assms have lt: "sint s < pb_max bar" and nc: "\<not> progressbar_completed bar"
    by (simp_all add: progressbar_completed_def pb_value_def)
  with assms have "1 \<le> double_of_long (pb_max bar)"
    by (intro double_of_long_ge_1) simp
  moreover have "double_of_long (pb_value bar) \<le> double_of_long (sint s)"
    using assms(3) by (rule double_of_long_mono)
  ultimately have "double_of_long (pb_value bar) / double_of_long (pb_max bar)
      \<le> double_of_long (sint s) / double_of_long (pb_max bar)"
    by (intro divide_right_mono) simp_all
  then have "fl (double_of_long (pb_value bar) / double_of_long (pb_max bar))
      \<le> fl (double_of_long (sint s) / double_of_long (pb_max bar))"
    by (rule fl_mono)
  with assms have "progress_ratio bar \<le> progress_ratio (bar\<lparr>store := s\<rparr>)"
    by (simp add: progress_ratio_def pb_value_def)
  with assms have "real_of_int c * progress_ratio bar
      \<le> real_of_int c * progress_ratio (bar\<lparr>store := s\<rparr>)"
    by (simp add: mult_left_mono)
  then have "piece_product bar c \<le> piece_product (bar\<lparr>store := s\<rparr>) c"
    unfolding piece_product_def by (rule fl_mono)
  then have "int_of_double (piece_product bar c)
      \<le> int_of_double (piece_product (bar\<lparr>store := s\<rparr>) c)"
    by (rule int_of_double_mono)
  with nc assms show ?thesis
    by (simp add: bar_piece_raw_def)
qed

text \<open>Where the bar is not complete, a fraction that is not a finite double and a
  quotient by a maximum of zero give a fill count that is not a value of \<^verbatim>\<open>int\<close>:
  the conversion of lines 243 to 248 is then undefined in C.\<close>

lemma double_val_nonfinite:
  assumes "\<not> double_finite w"
  shows "2 ^ 1024 \<le> \<bar>double_val w\<bar>"
proof -
  define m where "m = unat w mod 2 ^ 52"
  have "(unat w div 2 ^ 52) mod 2 ^ 11 < 2 ^ 11"
    by simp
  with assms have e: "(unat w div 2 ^ 52) mod 2 ^ 11 = 2047"
    by (simp add: double_finite_def)
  have "(2 :: real) ^ 1024 = 2 ^ 52 * 2 ^ 972"
    by simp
  also have "\<dots> \<le> real (2 ^ 52 + m) * 2 ^ 972"
    by (intro mult_right_mono) simp_all
  finally have "2 ^ 1024 \<le> real (2 ^ 52 + m) * 2 ^ 972" .
  moreover have "\<bar>double_val w\<bar> = real (2 ^ 52 + m) * 2 ^ 972"
    using e by (simp add: double_val_def Let_def m_def)
  ultimately show ?thesis
    by simp
qed

lemma fl_huge:
  assumes "2 ^ 1027 \<le> \<bar>x\<bar>"
  shows "2 ^ 1027 \<le> \<bar>fl x\<bar>"
proof -
  have p: "fl (2 ^ 1027) = 2 ^ 1027"
    using fl_representable [of 1 1027] by (simp add: pow2_def)
  show ?thesis
  proof (cases "0 \<le> x")
    case True
    with assms have "fl (2 ^ 1027) \<le> fl x"
      by (intro fl_mono) simp
    with p show ?thesis by simp
  next
    case False
    with assms have "fl x \<le> fl (- (2 ^ 1027))"
      by (intro fl_mono) simp
    with p show ?thesis by (simp add: fl_minus)
  qed
qed

lemma int_of_double_huge:
  assumes "2 ^ 1027 \<le> \<bar>d\<bar>"
  shows "\<not> int_representable (int_of_double d)"
proof (cases "d < 0")
  case True
  with assms have "d \<le> real_of_int (- (2 ^ 1027))"
    by simp
  then have "\<lceil>d\<rceil> \<le> - (2 ^ 1027)"
    by (simp only: ceiling_le_iff)
  with True show ?thesis
    by (simp add: int_of_double_def int_representable_def)
next
  case False
  with assms have "real_of_int (2 ^ 1027) \<le> d"
    by simp
  then have "2 ^ 1027 \<le> \<lfloor>d\<rfloor>"
    by (simp only: le_floor_iff)
  with False show ?thesis
    by (simp add: int_of_double_def int_representable_def)
qed

lemma nonfinite_fill_not_int:
  assumes "pb_max bar < 0 \<and> \<not> double_finite (store bar) \<or> pb_max bar = 0"
    and "\<not> progressbar_completed bar" "8 \<le> c"
  shows "\<not> int_representable (bar_piece_raw bar c)"
proof -
  have "2 ^ 1024 \<le> \<bar>progress_ratio bar\<bar>"
    using assms(1) double_val_nonfinite [of "store bar"]
    by (auto simp: progress_ratio_def pb_percent_def)
  moreover from assms(3) have "8 \<le> \<bar>real_of_int c\<bar>"
    by simp
  ultimately have "8 * 2 ^ 1024 \<le> \<bar>real_of_int c\<bar> * \<bar>progress_ratio bar\<bar>"
    by (intro mult_mono) simp_all
  then have "2 ^ 1027 \<le> \<bar>real_of_int c * progress_ratio bar\<bar>"
    by (simp add: abs_mult)
  then have "2 ^ 1027 \<le> \<bar>piece_product bar c\<bar>"
    unfolding piece_product_def by (rule fl_huge)
  then have "\<not> int_representable (int_of_double (piece_product bar c))"
    by (rule int_of_double_huge)
  with assms(2) show ?thesis
    by (simp add: bar_piece_raw_def)
qed

lemma difftime_pos_iff: "0 < difftime t1 t0 \<longleftrightarrow> 0 < t1 - t0"
proof
  assume "0 < t1 - t0"
  then have "real_of_int 1 \<le> real_of_int (t1 - t0)"
    by (simp only: of_int_le_iff)
  then have "real_of_int 1 \<le> fl (real_of_int (t1 - t0))"
    by (rule fl_ge_of_int) simp
  then show "0 < difftime t1 t0"
    by (simp add: difftime_def)
next
  assume pos: "0 < difftime t1 t0"
  show "0 < t1 - t0"
  proof (rule ccontr)
    assume "\<not> 0 < t1 - t0"
    then have "real_of_int (t1 - t0) \<le> 0" by simp
    then have "fl (real_of_int (t1 - t0)) \<le> 0" by (rule fl_nonpos)
    with pos show False by (simp add: difftime_def)
  qed
qed

text \<open>The definitions that evaluate one call of \<^verbatim>\<open>progressbar_draw\<close> on given
  data.\<close>

lemmas draw_eval =
  progressbar_draw_parts label_bytes_def eta_bytes_def tumbler_char_def fill_glyphs_def
  unfilled_glyphs_def draw_piece_count_def draw_bar_width_def draw_label_width_def
  draw_screen_width_def draw_label_length_def get_screen_width_def progressbar_bar_width_def
  progressbar_label_width_def progressbar_max_def bar_piece_current_def bar_piece_raw_def
  progress_ratio_def piece_product_def double_of_long_def progressbar_completed_def double_nan_def pb_value_def pb_percent_def double_val_def
  int_of_double_def size_t_of_int_def tumbler_drawn_def unfilled_count_def draw_eta_def
  progressbar_remaining_seconds_def progressbar_calc_time_components_def c_div_def
  difftime_def ETA_FORMAT_def ELAPSED_FORMAT_def printf_d_def dec.simps cstr_nth_def
  constants Let_def fl_samples

section \<open>Finishing a bar\<close>

text \<open>
  Claim C5.  For every live bar, \<^verbatim>\<open>progressbar_finish\<close> first forces completion: in
  percent mode it stores the double 1.0 in the union, in steps mode it leaves the union as it
  is, and it changes no other member.  It then draws this bar once, and the bytes of that
  draw end with a carriage return; it then writes one newline; it then frees the bar.
\<close>

theorem finish_sequence:
  assumes "heap m bar = Some b"
  shows "progressbar_finish e bar m =
           Some (m\<lparr>heap := (heap m)(bar := None),
                   stderr := stderr m
                     @ snd (progressbar_draw e (mem m)
                              (if pb_max b < 0 then b\<lparr>store := double_one\<rparr> else b))
                     @ [CHR 0x0A]\<rparr>)
         \<and> last (snd (progressbar_draw e (mem m)
                          (if pb_max b < 0 then b\<lparr>store := double_one\<rparr> else b))) = CHR 0x0D
         \<and> pb_percent (b\<lparr>store := double_one\<rparr>) = 1"
  using assms
  by (simp add: progressbar_finish_def call_draw_Some progressbar_free_def draw_ends_with_cr
      pb_percent_def double_val_one)

text \<open>A bar in percent mode at one quarter, finished four seconds after its start on a
  terminal of 80 columns.\<close>

theorem finish_sequence_witness:
  "heap (sample_machine (percent_bar 4 0x3FD0000000000000)) 7
     = Some (percent_bar 4 0x3FD0000000000000)
   \<and> progressbar_finish (sample_env 80 4) 7 (sample_machine (percent_bar 4 0x3FD0000000000000))
     = Some \<lparr>heap = Map.empty, mem = sample_mem,
             stderr = ''compiling'' @ ''Load |'' @ replicate 59 (CHR ''='') @ ''|      0h00m04s''
                      @ [CHR 0x0D, CHR 0x0A]\<rparr>"
proof -
  have live: "heap (sample_machine (percent_bar 4 0x3FD0000000000000)) 7
                = Some (percent_bar 4 0x3FD0000000000000)"
    by (simp add: sample_machine_def)
  have "snd (progressbar_draw (sample_env 80 4) sample_mem
               ((percent_bar 4 0x3FD0000000000000)\<lparr>store := double_one\<rparr>))
          = ''Load |'' @ replicate 59 (CHR ''='') @ ''|      0h00m04s'' @ [CHR 0x0D]"
    by (simp add: draw_eval sample_defs double_one_def)
  with live finish_sequence [OF live, of "sample_env 80 4"] show ?thesis
    by (simp add: sample_machine_def percent_bar_def)
qed

section \<open>Relabelling\<close>

text \<open>
  Claim C9.  For every live bar, \<^verbatim>\<open>progressbar_update_label\<close> writes nothing to
  \<^verbatim>\<open>stderr\<close>, leaves the string memory as it is (the string is not copied) and
  changes no member of the bar but the pointer \<^verbatim>\<open>label\<close>, which becomes the pointer
  passed.  The next mutator draws the bar with the string behind the new pointer.
\<close>

theorem update_label_frame:
  assumes "heap m bar = Some b"
  shows "progressbar_update_label bar lbl m
           = Some (m\<lparr>heap := (heap m)(bar \<mapsto> b\<lparr>label := lbl\<rparr>)\<rparr>)
         \<and> map_option stderr (progressbar_update_label bar lbl m) = Some (stderr m)
         \<and> map_option mem (progressbar_update_label bar lbl m) = Some (mem m)
         \<and> Option.bind (progressbar_update_label bar lbl m) (progressbar_update e bar v)
           = Some (m\<lparr>heap := (heap m)(bar \<mapsto>
                           fst (progressbar_draw e (mem m)
                                  (b\<lparr>label := lbl, store := word_of_int v\<rparr>))),
                      stderr := stderr m
                        @ snd (progressbar_draw e (mem m)
                                 (b\<lparr>label := lbl, store := word_of_int v\<rparr>))\<rparr>)"
  using assms
  by (simp add: progressbar_update_label_def progressbar_update_def call_draw_Some)

text \<open>The bar labelled \<^verbatim>\<open>Emerging\<close> is relabelled \<^verbatim>\<open>X\<close> and then set to 5 of 10
  steps, ten seconds after its start.\<close>

theorem update_label_frame_witness:
  "heap (sample_machine (steps_bar 1 10 0)) 7 = Some (steps_bar 1 10 0)
   \<and> progressbar_update_label 7 3 (sample_machine (steps_bar 1 10 0))
     = Some (sample_machine (steps_bar 3 10 0))
   \<and> Option.bind (progressbar_update_label 7 3 (sample_machine (steps_bar 1 10 0)))
       (progressbar_update (sample_env 80 10) 7 5)
     = Some \<lparr>heap = [7 \<mapsto> steps_bar 3 10 5], mem = sample_mem,
             stderr = ''compiling'' @ ''X |'' @ replicate 31 (CHR ''='')
                      @ replicate 31 (CHR '' '') @ ''| ETA: 0h00m10s'' @ [CHR 0x0D]\<rparr>"
proof -
  have live: "heap (sample_machine (steps_bar 1 10 0)) 7 = Some (steps_bar 1 10 0)"
    by (simp add: sample_machine_def)
  have "progressbar_draw (sample_env 80 10) sample_mem
          ((steps_bar 1 10 0)\<lparr>label := 3, store := word_of_int 5\<rparr>)
          = (steps_bar 3 10 5,
             ''X |'' @ replicate 31 (CHR ''='') @ replicate 31 (CHR '' '')
             @ ''| ETA: 0h00m10s'' @ [CHR 0x0D])"
    by (simp add: draw_eval sample_defs)
  note drawn = this
  note frame = update_label_frame [OF live, of 3 "sample_env 80 10" 5]
  from frame have "progressbar_update_label 7 3 (sample_machine (steps_bar 1 10 0))
      = Some (sample_machine (steps_bar 3 10 0))"
    by (simp add: sample_machine_def steps_bar_def)
  moreover from frame [THEN conjunct2, THEN conjunct2, THEN conjunct2] drawn
  have "Option.bind (progressbar_update_label 7 3 (sample_machine (steps_bar 1 10 0)))
          (progressbar_update (sample_env 80 10) 7 5)
        = Some \<lparr>heap = [7 \<mapsto> steps_bar 3 10 5], mem = sample_mem,
                stderr = ''compiling'' @ ''X |'' @ replicate 31 (CHR ''='')
                         @ replicate 31 (CHR '' '') @ ''| ETA: 0h00m10s'' @ [CHR 0x0D]\<rparr>"
    by (simp add: sample_machine_def steps_bar_def del: bind_eq_Some_conv)
  ultimately show ?thesis
    using live by (simp only: simp_thms)
qed

section \<open>Construction\<close>

text \<open>
  Claim C6 says that every constructor returns a value on every path.  With a successful
  allocation and the default glyphs, \<^verbatim>\<open>progressbar_new_percent_with_format\<close> reaches
  its closing brace without a \<^verbatim>\<open>return\<close> statement, and so does
  \<^verbatim>\<open>progressbar_new_percent\<close>, which hands that call's value on; the constructor
  \<^verbatim>\<open>progressbar_new_percent_with_format_and_tumbler\<close> returns the new bar on the same
  arguments.
\<close>

theorem percent_constructor_no_return:
  "fst (progressbar_new_percent_with_format t0 e (Some (pb, junk)) lbl ''|= |'' m) = No_return
   \<and> fst (progressbar_new_percent t0 e (Some (pb, junk)) lbl m) = No_return
   \<and> fst (progressbar_new_percent_with_format_and_tumbler t0 e (Some (pb, junk)) lbl ''|= |''
            tumbler m)
     = Returns (Some pb)"
  by (simp add: progressbar_new_percent_def progressbar_new_percent_with_format_def
      progressbar_new_percent_with_format_and_tumbler_def assign_label_draw_def
      progressbar_assign_values_def progressbar_update_label_def call_draw_Some)

section \<open>The width of the screen\<close>

text \<open>
  Claim C7 says that \<^verbatim>\<open>get_screen_width\<close> returns 80 on any failure of the lookup.
  When \<^verbatim>\<open>tgetent\<close> finds no entry for the terminal it returns 0, and
  \<^verbatim>\<open>tgetnum\<close> then returns \<open>-1\<close>: the function returns \<open>-1\<close> converted to
  \<^verbatim>\<open>unsigned int\<close>, which \<^verbatim>\<open>progressbar_draw\<close> reads as a screen width of
  \<open>-1\<close>.  Only a negative result of \<^verbatim>\<open>tgetent\<close> gives 80.
\<close>

theorem screen_width_lookup_failure:
  "get_screen_width \<lparr>tgetent_result = 0, tgetnum_co = - 1, time_now = t\<rparr> = 4294967295
   \<and> draw_screen_width \<lparr>tgetent_result = 0, tgetnum_co = - 1, time_now = t\<rparr> = - 1
   \<and> get_screen_width \<lparr>tgetent_result = - 1, tgetnum_co = c, time_now = t\<rparr> = 80"
  by (simp add: get_screen_width_def draw_screen_width_def DEFAULT_SCREEN_WIDTH_def)

section \<open>The remaining time\<close>

text \<open>
  Claim C4 says that \<^verbatim>\<open>progressbar_remaining_seconds\<close> returns the value of
  \<open>(elapsed / value) * (max - value)\<close>, truncated.  The code computes the quotient and the
  product in binary64, and each of them is rounded.  At 11 of 66 steps after 3 seconds the
  value of the formula is 15; the quotient \<open>3 / 11\<close> is rounded down, its product with 55
  is rounded to the double below 15, and the function returns 14.  At 1 of 3000000000 steps
  after 1 second the value of the formula is 2999999999, which is not a value of
  \<^verbatim>\<open>int\<close>, the type of the result.
\<close>

theorem remaining_seconds_exact_counterexample:
  "progressbar_remaining_seconds (sample_env 80 3) (steps_bar 1 66 11) = 14
   \<and> spec_remaining_seconds (sample_env 80 3) (steps_bar 1 66 11) = 15
   \<and> spec_remaining_seconds (sample_env 80 1) (steps_bar 1 3000000000 1) = 2999999999
   \<and> \<not> int_representable 2999999999"
proof -
  have "progressbar_remaining_seconds (sample_env 80 3) (steps_bar 1 66 11) = 14"
    by (simp add: progressbar_remaining_seconds_def Let_def difftime_def double_of_long_def
        pb_value_def int_of_double_def sample_defs fl_3_11 fl_3_11_times_55)
  moreover have "spec_remaining_seconds (sample_env 80 3) (steps_bar 1 66 11) = 15"
    by (simp add: spec_remaining_seconds_def pb_value_def int_of_double_def sample_defs)
  moreover
  have "spec_remaining_seconds (sample_env 80 1) (steps_bar 1 3000000000 1) = 2999999999"
    by (simp add: spec_remaining_seconds_def pb_value_def int_of_double_def sample_defs)
  moreover have "\<not> int_representable 2999999999"
    by (simp add: int_representable_def)
  ultimately show ?thesis
    by (simp only: simp_thms)
qed

text \<open>
  Claim C4, amended.  \<^verbatim>\<open>progressbar_remaining_seconds\<close> returns 0 unless the value
  (in percent mode the fraction) and the elapsed time are positive.  Otherwise it returns a
  binary64 number converted to \<^verbatim>\<open>int\<close>: in steps mode the rounded product of the
  rounded quotient \<open>elapsed / value\<close> and \<open>max - value\<close>, in percent mode the rounded
  product of the rounded quotient \<open>elapsed / fraction\<close> and the rounded difference
  \<open>1 - fraction\<close>.  This holds when the fraction is a finite double and the result is a
  value of \<^verbatim>\<open>int\<close>.  In percent mode the function tests member
  \<^verbatim>\<open>value\<close> of the union, which holds the bits of the fraction: the two readings of
  a word are positive together.  The elapsed time that \<^verbatim>\<open>difftime\<close> returns is
  positive when the clock is past the start of the bar, and only then.
\<close>

theorem remaining_seconds_binary64:
  assumes "pb_max bar < 0 \<Longrightarrow> double_finite (store bar)"
    and "int_representable (progressbar_remaining_seconds e bar)"
  shows "progressbar_remaining_seconds e bar =
     (if pb_max bar < 0
      then (if 0 < pb_percent bar \<and> 0 < time_now e - start bar
            then int_of_double
                   (fl (fl (difftime (time_now e) (start bar) / pb_percent bar)
                        * fl (1 - pb_percent bar)))
            else 0)
      else (if 0 < pb_value bar \<and> 0 < time_now e - start bar
            then int_of_double
                   (fl (fl (difftime (time_now e) (start bar) / double_of_long (pb_value bar))
                        * double_of_long (pb_max bar - pb_value bar)))
            else 0))"
  by (simp add: progressbar_remaining_seconds_def Let_def difftime_pos_iff pb_value_def
      pb_percent_def pun_sign)

text \<open>One quarter done after 4 seconds leaves 12 seconds; the double nearest to one tenth
  done after 1 second leaves 9 seconds; 11 of 66 steps after 3 seconds leave 14 seconds; no
  progress gives 0.\<close>

theorem remaining_seconds_binary64_witness:
  "double_finite (store (percent_bar 4 0x3FD0000000000000))
   \<and> int_representable (progressbar_remaining_seconds (sample_env 80 4)
        (percent_bar 4 0x3FD0000000000000))
   \<and> progressbar_remaining_seconds (sample_env 80 4) (percent_bar 4 0x3FD0000000000000) = 12
   \<and> double_finite (store (percent_bar 4 0x3FB999999999999A))
   \<and> int_representable (progressbar_remaining_seconds (sample_env 80 1)
        (percent_bar 4 0x3FB999999999999A))
   \<and> progressbar_remaining_seconds (sample_env 80 1) (percent_bar 4 0x3FB999999999999A) = 9
   \<and> int_representable (progressbar_remaining_seconds (sample_env 80 3) (steps_bar 1 66 11))
   \<and> progressbar_remaining_seconds (sample_env 80 3) (steps_bar 1 66 11) = 14
   \<and> int_representable (progressbar_remaining_seconds (sample_env 80 10) (steps_bar 1 10 0))
   \<and> progressbar_remaining_seconds (sample_env 80 10) (steps_bar 1 10 0) = 0"
proof -
  have fin: "double_finite (store (percent_bar 4 0x3FD0000000000000))"
    "double_finite (store (percent_bar 4 0x3FB999999999999A))"
    by (simp_all add: double_finite_def percent_bar_def)
  have steps: "pb_max (steps_bar 1 mx v) < 0 \<Longrightarrow> double_finite (store (steps_bar 1 mx v))"
    if "0 \<le> mx" for mx v
    using that by (simp add: steps_bar_def)
  have rep: "int_representable (progressbar_remaining_seconds (sample_env 80 4)
        (percent_bar 4 0x3FD0000000000000))"
    "int_representable (progressbar_remaining_seconds (sample_env 80 1)
        (percent_bar 4 0x3FB999999999999A))"
    "int_representable (progressbar_remaining_seconds (sample_env 80 3) (steps_bar 1 66 11))"
    "int_representable (progressbar_remaining_seconds (sample_env 80 10) (steps_bar 1 10 0))"
    by (simp_all add: int_representable_def progressbar_remaining_seconds_def Let_def
        difftime_def double_of_long_def pb_value_def pb_percent_def double_val_def
        int_of_double_def sample_defs fl_samples fl_3_11 fl_3_11_times_55
        fl_10_tenth fl_1_minus_tenth fl_10_times_9_10)
  have "progressbar_remaining_seconds (sample_env 80 4) (percent_bar 4 0x3FD0000000000000) = 12"
    using remaining_seconds_binary64 [OF fin(1) rep(1)]
    by (simp add: sample_defs pb_percent_def double_val_def difftime_def int_of_double_def
        fl_samples)
  moreover
  have "progressbar_remaining_seconds (sample_env 80 1) (percent_bar 4 0x3FB999999999999A) = 9"
    using remaining_seconds_binary64 [OF fin(2) rep(2)]
    by (simp add: sample_defs pb_percent_def double_val_def difftime_def int_of_double_def
        fl_10_tenth fl_1_minus_tenth fl_10_times_9_10)
  moreover
  have "progressbar_remaining_seconds (sample_env 80 3) (steps_bar 1 66 11) = 14"
    using remaining_seconds_binary64 [OF steps rep(3)]
    by (simp add: sample_defs pb_value_def difftime_def double_of_long_def int_of_double_def
        fl_3_11 fl_3_11_times_55)
  moreover
  have "progressbar_remaining_seconds (sample_env 80 10) (steps_bar 1 10 0) = 0"
    using remaining_seconds_binary64 [OF steps rep(4)]
    by (simp add: sample_defs pb_value_def)
  ultimately show ?thesis
    using fin rep by (simp only: simp_thms)
qed

section \<open>The width of the bar\<close>

text \<open>
  Claim C10.  Whatever screen width \<^verbatim>\<open>get_screen_width\<close> hands over (negative ones
  as well) and whatever the length of the label, the bar is at least 10 columns wide, so
  \<^verbatim>\<open>bar_piece_count\<close> is at least 8 in every call of \<^verbatim>\<open>progressbar_draw\<close>;
  for a bar whose progress is in range, both counts passed to
  \<^verbatim>\<open>progressbar_write_char\<close> are non-negative.
\<close>

theorem piece_counts_nonnegative:
  "10 \<le> progressbar_bar_width screen_width label_length
   \<and> 10 \<le> draw_bar_width e sm bar
   \<and> 8 \<le> draw_piece_count e sm bar
   \<and> (in_range bar \<longrightarrow>
        0 \<le> bar_piece_current bar (draw_piece_count e sm bar)
        \<and> 0 \<le> unfilled_count bar (draw_piece_count e sm bar))"
proof -
  define c where "c = draw_piece_count e sm bar"
  have c8: "8 \<le> c" "c < 2 ^ 53"
    using draw_piece_count_range [of e sm bar] by (simp_all add: c_def)
  have "0 \<le> bar_piece_current bar c \<and> 0 \<le> unfilled_count bar c" if "in_range bar"
  proof -
    from that c8 have "0 \<le> bar_piece_raw bar c" "bar_piece_raw bar c \<le> c"
      by (simp_all add: bar_piece_raw_range)
    then show ?thesis
      by (auto simp: bar_piece_current_def unfilled_count_def Let_def)
  qed
  moreover have "10 \<le> draw_bar_width e sm bar"
    by (simp add: draw_bar_width_def bar_width_ge)
  ultimately show ?thesis
    using c8(1) by (simp add: bar_width_ge c_def)
qed

text \<open>A bar with a tumbler at 5 of 10 steps, drawn when the lookup of the terminal has
  failed and the screen width is \<open>-1\<close>.\<close>

theorem piece_counts_nonnegative_witness:
  "in_range (with_tumbler (steps_bar 1 10 5))
   \<and> draw_screen_width \<lparr>tgetent_result = 0, tgetnum_co = - 1, time_now = 0\<rparr> = - 1
   \<and> draw_bar_width \<lparr>tgetent_result = 0, tgetnum_co = - 1, time_now = 0\<rparr> sample_mem
        (with_tumbler (steps_bar 1 10 5)) = 10
   \<and> 0 \<le> bar_piece_current (with_tumbler (steps_bar 1 10 5))
            (draw_piece_count \<lparr>tgetent_result = 0, tgetnum_co = - 1, time_now = 0\<rparr> sample_mem
               (with_tumbler (steps_bar 1 10 5)))
   \<and> 0 \<le> unfilled_count (with_tumbler (steps_bar 1 10 5))
            (draw_piece_count \<lparr>tgetent_result = 0, tgetnum_co = - 1, time_now = 0\<rparr> sample_mem
               (with_tumbler (steps_bar 1 10 5)))"
proof -
  have r: "in_range (with_tumbler (steps_bar 1 10 5))"
    by (simp add: in_range_def sample_defs pb_value_def)
  have w: "draw_screen_width \<lparr>tgetent_result = 0, tgetnum_co = - 1, time_now = 0\<rparr> = - 1"
    by (simp add: draw_screen_width_def get_screen_width_def)
  have b: "draw_bar_width \<lparr>tgetent_result = 0, tgetnum_co = - 1, time_now = 0\<rparr> sample_mem
        (with_tumbler (steps_bar 1 10 5)) = 10"
    by (simp add: draw_bar_width_def w draw_label_length_def progressbar_bar_width_def
        progressbar_max_def constants sample_defs)
  from r w b
    piece_counts_nonnegative [of 0 0 "\<lparr>tgetent_result = 0, tgetnum_co = - 1, time_now = 0\<rparr>"
      sample_mem "with_tumbler (steps_bar 1 10 5)"]
  show ?thesis
    by blast
qed

section \<open>Monotone fill\<close>

text \<open>
  Claim C8.  In steps mode, with the maximum, the screen and the label fixed (and so the
  number of interior pieces), the number of advanced cells, that is the fill glyphs plus
  one where the tumbler is written, does not decrease when the value grows from a
  non-negative value.
\<close>

theorem advanced_cells_mono:
  assumes "0 \<le> pb_max bar" "0 \<le> pb_value bar" "pb_value bar \<le> pb_value (bar\<lparr>store := s\<rparr>)"
  shows "advanced_cells e sm bar \<le> advanced_cells e sm (bar\<lparr>store := s\<rparr>)"
proof -
  define bar' where "bar' = bar\<lparr>store := s\<rparr>"
  define c where "c = draw_piece_count e sm bar"
  have c': "draw_piece_count e sm bar' = c"
    by (simp add: c_def bar'_def draw_piece_count_def draw_bar_width_def draw_label_length_def)
  have c: "8 \<le> c" "c < 2 ^ 53"
    using draw_piece_count_range [of e sm bar] by (simp_all add: c_def)
  have le: "pb_value bar \<le> sint s"
    using assms by (simp add: pb_value_def)
  have bar': "0 \<le> pb_max bar'" "0 \<le> pb_value bar'" "tumbler_length bar' = tumbler_length bar"
    using assms by (simp_all add: bar'_def)
  have a: "int (advanced_cells e sm bar) =
     (if progressbar_completed bar then c
      else if tumbler_length bar = 0 then bar_piece_raw bar c
      else max 1 (bar_piece_raw bar c))"
    using assms by (simp add: advanced_cells_steps c_def)
  have a': "int (advanced_cells e sm bar') =
     (if progressbar_completed bar' then c
      else if tumbler_length bar = 0 then bar_piece_raw bar' c
      else max 1 (bar_piece_raw bar' c))"
    using bar' by (simp add: advanced_cells_steps c')
  have "int (advanced_cells e sm bar) \<le> int (advanced_cells e sm bar')"
  proof (cases "progressbar_completed bar'")
    case True
    show ?thesis
    proof (cases "progressbar_completed bar")
      case True
      with \<open>progressbar_completed bar'\<close> a a' show ?thesis by simp
    next
      case False
      with assms(1,2) have "in_range bar"
        by (rule steps_in_range)
      with c have "bar_piece_raw bar c \<le> c"
        by (simp add: bar_piece_raw_range)
      with True False a a' c show ?thesis
        by simp
    qed
  next
    case False
    with assms le have nc: "\<not> progressbar_completed bar"
      by (simp add: progressbar_completed_def bar'_def pb_value_def)
    from assms(1,2) le False c have "bar_piece_raw bar c \<le> bar_piece_raw bar' c"
      unfolding bar'_def by (intro bar_piece_raw_mono) simp_all
    with False nc a a' show ?thesis
      by (auto simp: max_def)
  qed
  then show ?thesis
    by (simp add: bar'_def)
qed

text \<open>With a tumbler on a bar of 62 pieces, value 0 of 100 shows one cell (the tumbler)
  and value 10 shows six.\<close>

theorem advanced_cells_mono_witness:
  "0 \<le> pb_max (with_tumbler (steps_bar 3 100 0))
   \<and> 0 \<le> pb_value (with_tumbler (steps_bar 3 100 0))
   \<and> pb_value (with_tumbler (steps_bar 3 100 0))
       \<le> pb_value ((with_tumbler (steps_bar 3 100 0))\<lparr>store := 10\<rparr>)
   \<and> advanced_cells (sample_env 80 1) sample_mem (with_tumbler (steps_bar 3 100 0)) = 1
   \<and> advanced_cells (sample_env 80 1) sample_mem ((with_tumbler (steps_bar 3 100 0))\<lparr>store := 10\<rparr>) = 6
   \<and> advanced_cells (sample_env 80 1) sample_mem (with_tumbler (steps_bar 3 100 0))
       \<le> advanced_cells (sample_env 80 1) sample_mem ((with_tumbler (steps_bar 3 100 0))\<lparr>store := 10\<rparr>)"
proof -
  have h: "0 \<le> pb_max (with_tumbler (steps_bar 3 100 0))"
    "0 \<le> pb_value (with_tumbler (steps_bar 3 100 0))"
    "pb_value (with_tumbler (steps_bar 3 100 0))
       \<le> pb_value ((with_tumbler (steps_bar 3 100 0))\<lparr>store := 10\<rparr>)"
    by (simp_all add: sample_defs pb_value_def)
  have v: "advanced_cells (sample_env 80 1) sample_mem (with_tumbler (steps_bar 3 100 0)) = 1"
    "advanced_cells (sample_env 80 1) sample_mem ((with_tumbler (steps_bar 3 100 0))\<lparr>store := 10\<rparr>) = 6"
    by (simp_all add: advanced_cells_def draw_eval sample_defs fl_1_10 fl_62_times_1_10)
  from h v advanced_cells_mono [OF h, of "sample_env 80 1" sample_mem] show ?thesis
    by (simp only: simp_thms)
qed

text \<open>The fill count is the truncated binary64 product.  At 3 of 11 steps on 55 pieces
  the quotient is rounded down and 14 fill glyphs are written, where the exact product is
  15.  At the fraction with the bits \<^verbatim>\<open>0x3FE3333333333333\<close>, the double nearest to
  \<open>6 / 10\<close>, the exact product with 55 is below 33, the binary64 product is 33, and 33
  fill glyphs are written.\<close>

lemma rounded_fill_samples:
  "fill_glyphs (sample_env 80 0) sample_mem (steps_bar 1 11 3) = 14
   \<and> 55 * pb_percent (percent_bar 1 0x3FE3333333333333) < 33
   \<and> fill_glyphs (sample_env 80 0) sample_mem (percent_bar 1 0x3FE3333333333333) = 33"
  by (simp add: draw_eval sample_defs fl_3_11 fl_3_11_times_55 fl_55_times_6_10)

section \<open>The tumbler at zero fill\<close>




section \<open>Progress outside the expected range\<close>

text \<open>
  Claim C3 says that a negative value is drawn with no fill glyph.  At value \<open>-5\<close> of 10
  on 80 columns the bar has 55 pieces and \<^verbatim>\<open>bar_piece_current\<close> is \<open>-27\<close>; the
  conversion of the argument to \<^verbatim>\<open>size_t\<close> makes \<^verbatim>\<open>progressbar_write_char\<close>
  write \<open>2 ^ 64 - 27\<close> fill glyphs, followed by 82 unfilled glyphs.
\<close>

theorem negative_value_counterexample:
  "pb_value (steps_bar 1 10 (- 5)) = - 5
   \<and> \<not> progressbar_completed (steps_bar 1 10 (- 5))
   \<and> draw_piece_count (sample_env 80 0) sample_mem (steps_bar 1 10 (- 5)) = 55
   \<and> bar_piece_current (steps_bar 1 10 (- 5)) 55 = - 27
   \<and> fill_glyphs (sample_env 80 0) sample_mem (steps_bar 1 10 (- 5)) = 18446744073709551589
   \<and> snd (progressbar_draw (sample_env 80 0) sample_mem (steps_bar 1 10 (- 5)))
      = ''Emerging |'' @ replicate 18446744073709551589 (CHR ''='')
        @ replicate 82 (CHR '' '') @ ''| ETA: 0h00m00s'' @ [CHR 0x0D]"
  by (simp add: draw_eval sample_defs)

text \<open>
  Claim C3, amended.  A bar whose value is at or above the maximum (steps mode) or whose
  fraction is at least 1 (percent mode; a NaN is not at least 1) is drawn as complete: all
  pieces are fill glyphs, there is neither tumbler nor unfilled glyph, and the bar is left
  as it was.  A negative fraction, or a negative value with a positive maximum, is drawn
  with no fill glyph when the binary64 product of the piece count and the progress ratio is
  above \<open>-1\<close>, so that its conversion to \<^verbatim>\<open>int\<close> is 0.
\<close>

theorem out_of_range_draw:
  "((if pb_max bar < 0 then \<not> double_nan (store bar) \<and> 1 \<le> pb_percent bar
      else pb_max bar \<le> pb_value bar) \<longrightarrow>
      progressbar_draw e sm bar =
        (bar,
         label_bytes e sm bar
         @ [begin_glyph (format bar)]
         @ replicate (nat (draw_piece_count e sm bar)) (fill (format bar))
         @ [end_glyph (format bar)]
         @ '' '' @ eta_bytes e bar @ [CHR 0x0D]))
   \<and> ((pb_max bar < 0 \<and> pb_percent bar < 0 \<or> 0 < pb_max bar \<and> pb_value bar < 0)
        \<and> - 1 < piece_product bar (draw_piece_count e sm bar) \<longrightarrow>
      bar_piece_current bar (draw_piece_count e sm bar) = 0 \<and> fill_glyphs e sm bar = 0)"
proof -
  define c where "c = draw_piece_count e sm bar"
  have c: "8 \<le> c" "c < 2 ^ 64"
    using draw_piece_count_range [of e sm bar] by (simp_all add: c_def)
  have complete: "progressbar_draw e sm bar =
        (bar,
         label_bytes e sm bar @ [begin_glyph (format bar)]
         @ replicate (nat c) (fill (format bar)) @ [end_glyph (format bar)]
         @ '' '' @ eta_bytes e bar @ [CHR 0x0D])"
    if "progressbar_completed bar"
  proof -
    from that have cur: "bar_piece_current bar c = c"
      by (simp add: bar_piece_current_def bar_piece_raw_def)
    then have "\<not> tumbler_drawn bar c" "unfilled_count bar c = 0"
      by (simp_all add: tumbler_drawn_def unfilled_count_def)
    with cur c show ?thesis
      by (simp add: progressbar_draw_parts fill_glyphs_def unfilled_glyphs_def
          size_t_of_int_id flip: c_def)
  qed
  have negative: "bar_piece_current bar c = 0 \<and> fill_glyphs e sm bar = 0"
    if neg: "pb_max bar < 0 \<and> pb_percent bar < 0 \<or> 0 < pb_max bar \<and> pb_value bar < 0"
      and small: "- 1 < piece_product bar c"
  proof -
    from neg have nc: "\<not> progressbar_completed bar"
      by (auto simp: progressbar_completed_def)
    have "progress_ratio bar \<le> 0"
    proof (cases "pb_max bar < 0")
      case True
      with neg show ?thesis by (simp add: progress_ratio_def)
    next
      case False
      with neg have "0 < pb_max bar" "pb_value bar \<le> 0" by simp_all
      then have "1 \<le> double_of_long (pb_max bar)" "double_of_long (pb_value bar) \<le> 0"
        using double_of_long_mono [of "pb_value bar" 0] double_of_long_ge_1 [of "pb_max bar"]
          double_of_long_0
        by simp_all
      then have "double_of_long (pb_value bar) / double_of_long (pb_max bar) \<le> 0"
        by (simp add: divide_le_0_iff)
      then have "fl (double_of_long (pb_value bar) / double_of_long (pb_max bar)) \<le> 0"
        by (rule fl_nonpos)
      with False \<open>0 < pb_max bar\<close> show ?thesis by (simp add: progress_ratio_def)
    qed
    with c have "real_of_int c * progress_ratio bar \<le> 0"
      by (simp add: mult_le_0_iff)
    then have "piece_product bar c \<le> 0"
      unfolding piece_product_def by (rule fl_nonpos)
    with small have "int_of_double (piece_product bar c) = 0"
      by (auto simp: int_of_double_def ceiling_eq_iff)
    with nc have "bar_piece_raw bar c = 0"
      by (simp add: bar_piece_raw_def)
    then have "bar_piece_current bar c = 0"
      by (simp add: bar_piece_current_def)
    then show ?thesis
      by (simp add: fill_glyphs_def size_t_of_int_def flip: c_def)
  qed
  from complete negative show ?thesis
    by (auto simp: progressbar_completed_def simp flip: c_def)
qed

text \<open>Value 12 of 10 and fraction 1.5 are drawn as complete; value \<open>-1\<close> of 128 on 55
  pieces and fraction \<open>-1/1024\<close> on 59 pieces are drawn without fill glyph.\<close>

theorem out_of_range_draw_witness:
  "pb_max (steps_bar 1 10 12) \<le> pb_value (steps_bar 1 10 12)
   \<and> progressbar_draw (sample_env 80 20) sample_mem (steps_bar 1 10 12)
     = (steps_bar 1 10 12,
        ''Emerging |'' @ replicate 55 (CHR ''='') @ ''|      0h00m20s'' @ [CHR 0x0D])
   \<and> 1 \<le> pb_percent (with_tumbler (percent_bar 4 0x3FF8000000000000))
   \<and> \<not> double_nan (store (with_tumbler (percent_bar 4 0x3FF8000000000000)))
   \<and> progressbar_draw (sample_env 80 20) sample_mem
        (with_tumbler (percent_bar 4 0x3FF8000000000000))
     = (with_tumbler (percent_bar 4 0x3FF8000000000000),
        ''Load |'' @ replicate 59 (CHR ''='') @ ''|      0h00m20s'' @ [CHR 0x0D])
   \<and> pb_value (steps_bar 1 128 (- 1)) < 0
   \<and> - 1 < piece_product (steps_bar 1 128 (- 1))
            (draw_piece_count (sample_env 80 0) sample_mem (steps_bar 1 128 (- 1)))
   \<and> fill_glyphs (sample_env 80 0) sample_mem (steps_bar 1 128 (- 1)) = 0
   \<and> pb_percent (percent_bar 4 0xBF50000000000000) < 0
   \<and> - 1 < piece_product (percent_bar 4 0xBF50000000000000)
            (draw_piece_count (sample_env 80 0) sample_mem (percent_bar 4 0xBF50000000000000))
   \<and> fill_glyphs (sample_env 80 0) sample_mem (percent_bar 4 0xBF50000000000000) = 0"
proof -
  have done_steps: "pb_max (steps_bar 1 10 12) \<le> pb_value (steps_bar 1 10 12)"
    by (simp add: sample_defs pb_value_def)
  have done_percent: "1 \<le> pb_percent (with_tumbler (percent_bar 4 0x3FF8000000000000))"
    "\<not> double_nan (store (with_tumbler (percent_bar 4 0x3FF8000000000000)))"
    by (simp_all add: sample_defs pb_percent_def double_val_def double_nan_def)
  have neg_steps: "pb_value (steps_bar 1 128 (- 1)) < 0"
    "- 1 < piece_product (steps_bar 1 128 (- 1))
            (draw_piece_count (sample_env 80 0) sample_mem (steps_bar 1 128 (- 1)))"
    by (simp_all add: draw_eval sample_defs fl_minus_1)
  have neg_percent: "pb_percent (percent_bar 4 0xBF50000000000000) < 0"
    "- 1 < piece_product (percent_bar 4 0xBF50000000000000)
            (draw_piece_count (sample_env 80 0) sample_mem (percent_bar 4 0xBF50000000000000))"
    by (simp_all add: draw_eval sample_defs)
  have parts:
    "label_bytes (sample_env 80 20) sample_mem (steps_bar 1 10 12) = ''Emerging ''"
    "draw_piece_count (sample_env 80 20) sample_mem (steps_bar 1 10 12) = 55"
    "eta_bytes (sample_env 80 20) (steps_bar 1 10 12) = ''     0h00m20s''"
    "label_bytes (sample_env 80 20) sample_mem (with_tumbler (percent_bar 4 0x3FF8000000000000))
       = ''Load ''"
    "draw_piece_count (sample_env 80 20) sample_mem
       (with_tumbler (percent_bar 4 0x3FF8000000000000)) = 59"
    "eta_bytes (sample_env 80 20) (with_tumbler (percent_bar 4 0x3FF8000000000000))
       = ''     0h00m20s''"
    by (simp_all add: draw_eval sample_defs)
  have "progressbar_draw (sample_env 80 20) sample_mem (steps_bar 1 10 12)
     = (steps_bar 1 10 12,
        ''Emerging |'' @ replicate 55 (CHR ''='') @ ''|      0h00m20s'' @ [CHR 0x0D])"
    using out_of_range_draw [of "steps_bar 1 10 12" "sample_env 80 20" sample_mem] done_steps
      parts
    by (simp add: sample_defs)
  moreover have "progressbar_draw (sample_env 80 20) sample_mem
        (with_tumbler (percent_bar 4 0x3FF8000000000000))
     = (with_tumbler (percent_bar 4 0x3FF8000000000000),
        ''Load |'' @ replicate 59 (CHR ''='') @ ''|      0h00m20s'' @ [CHR 0x0D])"
    using out_of_range_draw [of "with_tumbler (percent_bar 4 0x3FF8000000000000)"
        "sample_env 80 20" sample_mem] done_percent parts
    by (simp add: sample_defs)
  moreover have "fill_glyphs (sample_env 80 0) sample_mem (steps_bar 1 128 (- 1)) = 0"
    using out_of_range_draw [of "steps_bar 1 128 (- 1)" "sample_env 80 0" sample_mem] neg_steps
    by (simp add: sample_defs)
  moreover have "fill_glyphs (sample_env 80 0) sample_mem (percent_bar 4 0xBF50000000000000) = 0"
    using out_of_range_draw [of "percent_bar 4 0xBF50000000000000" "sample_env 80 0" sample_mem]
      neg_percent
    by (simp add: sample_defs)
  ultimately show ?thesis
    using done_steps done_percent neg_steps neg_percent by (simp only: simp_thms)
qed

text \<open>The product is the rounded one.  At the fraction with the bits
  \<^verbatim>\<open>0xBF929E4129E4129E\<close>, the negated double nearest to \<open>1 / 55\<close>, on 55 pieces
  the exact product is above \<open>-1\<close> and the binary64 product is \<open>-1\<close>:
  \<open>2 ^ 64 - 1\<close> fill glyphs are written.\<close>

lemma rounded_product_boundary:
  "- 1 < 55 * pb_percent (percent_bar 1 0xBF929E4129E4129E)
   \<and> draw_piece_count (sample_env 80 0) sample_mem (percent_bar 1 0xBF929E4129E4129E) = 55
   \<and> piece_product (percent_bar 1 0xBF929E4129E4129E) 55 = - 1
   \<and> fill_glyphs (sample_env 80 0) sample_mem (percent_bar 1 0xBF929E4129E4129E)
     = 18446744073709551615"
proof -
  have "\<lceil>- 1 :: real\<rceil> = - 1"
    using ceiling_of_int [where 'a = real, of "- 1"] by simp
  then show ?thesis
    by (simp add: draw_eval sample_defs fl_55_times_1_55)
qed

section \<open>Width accounting\<close>

subsection \<open>The columns that one call writes\<close>

lemma length_dec: "n < 100 \<Longrightarrow> length (dec n) = (if n < 10 then 1 else 2)"
  by (subst dec.simps, subst dec.simps) (simp add: less_mult_imp_div_less)

lemma length_printf_d_2: "0 \<le> n \<Longrightarrow> n < 100 \<Longrightarrow> length (printf_d z 2 n) = 2"
  by (simp add: printf_d_def Let_def length_dec)

lemma length_time_field:
  assumes "0 \<le> h" "h < 100" "0 \<le> m" "m < 60" "0 \<le> s" "s < 60"
  shows "length (ETA_FORMAT h m s) = 13" "length (ELAPSED_FORMAT h m s) = 13"
  using assms by (simp_all add: ETA_FORMAT_def ELAPSED_FORMAT_def length_printf_d_2)

lemma c_div_nonneg: "0 \<le> a \<Longrightarrow> 0 < b \<Longrightarrow> c_div a b = a div b"
  by (cases "a = 0") (simp_all add: c_div_def)

lemma calc_time_components_range:
  assumes "0 \<le> secs"
  shows "0 \<le> hours (progressbar_calc_time_components secs)"
    "0 \<le> minutes (progressbar_calc_time_components secs)"
    "minutes (progressbar_calc_time_components secs) < 60"
    "0 \<le> seconds (progressbar_calc_time_components secs)"
    "seconds (progressbar_calc_time_components secs) < 60"
proof -
  have r: "0 \<le> secs - secs div 3600 * 3600"
    by (simp add: minus_mult_div_eq_mod)
  have h: "c_div secs 3600 = secs div 3600"
    using assms by (simp add: c_div_nonneg)
  have m: "c_div (secs - secs div 3600 * 3600) 60 = (secs - secs div 3600 * 3600) div 60"
    using r by (simp add: c_div_nonneg)
  show "0 \<le> hours (progressbar_calc_time_components secs)"
    using assms by (simp add: progressbar_calc_time_components_def Let_def h pos_imp_zdiv_nonneg_iff)
  show "0 \<le> minutes (progressbar_calc_time_components secs)"
    using r by (simp add: progressbar_calc_time_components_def Let_def h m pos_imp_zdiv_nonneg_iff)
  show "minutes (progressbar_calc_time_components secs) < 60"
    by (simp add: progressbar_calc_time_components_def Let_def h m minus_mult_div_eq_mod)
  show "0 \<le> seconds (progressbar_calc_time_components secs)"
    by (simp add: progressbar_calc_time_components_def Let_def h m minus_mult_div_eq_mod)
  show "seconds (progressbar_calc_time_components secs) < 60"
    by (simp add: progressbar_calc_time_components_def Let_def h m minus_mult_div_eq_mod)
qed

lemma remaining_seconds_nonneg:
  assumes "in_range bar"
  shows "0 \<le> progressbar_remaining_seconds e bar"
proof (cases "0 < pb_value bar \<and> 0 < difftime (time_now e) (start bar)")
  case False
  then show ?thesis
    by (auto simp: progressbar_remaining_seconds_def Let_def)
next
  case True
  then have off: "0 < difftime (time_now e) (start bar)" and v: "0 < pb_value bar"
    by simp_all
  show ?thesis
  proof (cases "pb_max bar < 0")
    case True
    from v have "0 < pb_percent bar"
      by (simp add: pb_value_def pb_percent_def pun_sign)
    moreover from True assms have "pb_percent bar \<le> 1"
      by (simp add: in_range_def)
    ultimately have "0 \<le> fl (difftime (time_now e) (start bar) / pb_percent bar)"
      "0 \<le> fl (1 - pb_percent bar)"
      using off by (simp_all add: fl_nonneg)
    then have "0 \<le> fl (fl (difftime (time_now e) (start bar) / pb_percent bar)
        * fl (1 - pb_percent bar))"
      by (simp add: fl_nonneg)
    then have "0 \<le> int_of_double (fl (fl (difftime (time_now e) (start bar) / pb_percent bar)
        * fl (1 - pb_percent bar)))"
      by (rule int_of_double_nonneg)
    with True v off show ?thesis
      by (simp add: progressbar_remaining_seconds_def Let_def)
  next
    case False
    with assms have "pb_value bar \<le> pb_max bar"
      by (simp add: in_range_def)
    with v have "0 \<le> double_of_long (pb_value bar)"
      "0 \<le> double_of_long (pb_max bar - pb_value bar)"
      by (simp_all add: double_of_long_nonneg)
    with off have "0 \<le> fl (difftime (time_now e) (start bar) / double_of_long (pb_value bar))"
      by (simp add: fl_nonneg)
    with \<open>0 \<le> double_of_long (pb_max bar - pb_value bar)\<close>
    have "0 \<le> fl (fl (difftime (time_now e) (start bar) / double_of_long (pb_value bar))
        * double_of_long (pb_max bar - pb_value bar))"
      by (simp add: fl_nonneg)
    then have "0 \<le> int_of_double
        (fl (fl (difftime (time_now e) (start bar) / double_of_long (pb_value bar))
        * double_of_long (pb_max bar - pb_value bar)))"
      by (rule int_of_double_nonneg)
    with False v off show ?thesis
      by (simp add: progressbar_remaining_seconds_def Let_def)
  qed
qed

lemma length_eta_bytes:
  assumes "in_range bar" "start bar \<le> time_now e" "hours (draw_eta e bar) < 100"
  shows "length (eta_bytes e bar) = 13"
proof -
  define secs where "secs = (if progressbar_completed bar
      then int_of_double (difftime (time_now e) (start bar))
      else progressbar_remaining_seconds e bar)"
  have eta: "draw_eta e bar = progressbar_calc_time_components secs"
    by (simp add: draw_eta_def secs_def)
  have "0 \<le> difftime (time_now e) (start bar)"
    using assms(2) by (simp add: difftime_def fl_nonneg)
  then have "0 \<le> int_of_double (difftime (time_now e) (start bar))"
    by (rule int_of_double_nonneg)
  then have "0 \<le> secs"
    using assms(1) remaining_seconds_nonneg [of bar e]
    by (simp add: secs_def)
  then show ?thesis
    using assms(3) calc_time_components_range [of secs]
    by (simp add: eta_bytes_def eta length_time_field)
qed

lemma label_width_range:
  assumes "0 \<le> ll"
  shows "0 \<le> progressbar_label_width sw ll bw" "progressbar_label_width sw ll bw \<le> ll"
  using assms by (auto simp: progressbar_label_width_def progressbar_max_def constants Let_def)

lemma label_width_less:
  assumes "sw < 2 ^ 31" "0 \<le> bw"
  shows "progressbar_label_width sw ll bw < 2 ^ 31"
  using assms by (auto simp: progressbar_label_width_def progressbar_max_def constants Let_def)

lemma draw_label_width_range:
  "0 \<le> draw_label_width e sm bar"
  "draw_label_width e sm bar \<le> int (length (sm (label bar)))"
  "draw_label_width e sm bar < 2 ^ 64"
proof -
  have ll: "0 \<le> draw_label_length sm bar"
    by (simp add: draw_label_length_def)
  show "0 \<le> draw_label_width e sm bar"
    using ll by (simp add: draw_label_width_def label_width_range)
  show "draw_label_width e sm bar \<le> int (length (sm (label bar)))"
    using label_width_range(2) [OF ll] by (simp add: draw_label_width_def draw_label_length_def)
  have "0 \<le> draw_bar_width e sm bar"
    using bar_width_ge [of "draw_screen_width e" "draw_label_length sm bar"]
    by (simp add: draw_bar_width_def)
  then have "draw_label_width e sm bar < 2 ^ 31"
    unfolding draw_label_width_def
    by (intro label_width_less draw_screen_width_range)
  then show "draw_label_width e sm bar < 2 ^ 64"
    by simp
qed

lemma length_label_bytes:
  "int (length (label_bytes e sm bar)) =
     (if draw_label_width e sm bar = 0 then 0 else draw_label_width e sm bar + 1)"
  using draw_label_width_range [of e sm bar]
  by (auto simp: label_bytes_def size_t_of_int_id min_def)

lemma in_range_cells:
  assumes "in_range bar"
  shows "int (fill_glyphs e sm bar) + (if tumbler_drawn bar (draw_piece_count e sm bar) then 1 else 0)
         + int (unfilled_glyphs e sm bar) = draw_piece_count e sm bar"
proof -
  define c where "c = draw_piece_count e sm bar"
  have c: "8 \<le> c" "c < 2 ^ 64" "c < 2 ^ 53"
    using draw_piece_count_range [of e sm bar] by (simp_all add: c_def)
  with assms have raw: "0 \<le> bar_piece_raw bar c" "bar_piece_raw bar c \<le> c"
    by (simp_all add: bar_piece_raw_range)
  then have cur: "0 \<le> bar_piece_current bar c" "bar_piece_current bar c \<le> c"
    by (auto simp: bar_piece_current_def Let_def)
  then have unf: "0 \<le> unfilled_count bar c" "unfilled_count bar c \<le> c"
    by (auto simp: unfilled_count_def)
  from cur unf c have "fill_glyphs e sm bar = nat (bar_piece_current bar c)"
    "unfilled_glyphs e sm bar = nat (unfilled_count bar c)"
    by (simp_all add: fill_glyphs_def unfilled_glyphs_def size_t_of_int_id flip: c_def)
  with cur unf show ?thesis
    by (auto simp: tumbler_drawn_def unfilled_count_def simp flip: c_def)
qed

text \<open>The visible columns of one call for a bar in range, when the clock has not gone
  back and the hours are below 100: one fewer than the layout accounts for when no label
  is printed, and as many otherwise.\<close>

lemma draw_visible_columns:
  assumes "in_range bar" "start bar \<le> time_now e" "hours (draw_eta e bar) < 100"
  shows "int (length (butlast (snd (progressbar_draw e sm bar)))) =
           layout_columns e sm bar - (if draw_label_width e sm bar = 0 then 1 else 0)"
proof -
  have eta: "length (eta_bytes e bar) = 13"
    using assms by (rule length_eta_bytes)
  have cells: "int (fill_glyphs e sm bar)
      + (if tumbler_drawn bar (draw_piece_count e sm bar) then 1 else 0)
      + int (unfilled_glyphs e sm bar) = draw_piece_count e sm bar"
    using assms(1) by (rule in_range_cells)
  have lw: "0 \<le> draw_label_width e sm bar"
    by (rule draw_label_width_range)
  have "int (length (butlast (snd (progressbar_draw e sm bar)))) =
      int (length (label_bytes e sm bar)) + 1
      + (int (fill_glyphs e sm bar)
         + (if tumbler_drawn bar (draw_piece_count e sm bar) then 1 else 0)
         + int (unfilled_glyphs e sm bar))
      + 1 + 1 + int (length (eta_bytes e bar))"
    by (simp add: progressbar_draw_parts butlast_append)
  also have "\<dots> = (if draw_label_width e sm bar = 0 then 0 else draw_label_width e sm bar + 1)
      + draw_bar_width e sm bar + 1 + 13"
    by (simp only: cells eta length_label_bytes) (simp add: draw_piece_count_def constants)
  also have "\<dots> = layout_columns e sm bar - (if draw_label_width e sm bar = 0 then 1 else 0)"
    using lw
    by (simp add: layout_columns_def draw_bar_width_final_def Let_def constants
        draw_label_width_def draw_bar_width_def)
  finally show ?thesis .
qed

subsection \<open>The dropped label\<close>

text \<open>
  Claim C1 says that one call writes as many visible columns as the layout accounts for,
  with the bar one column wider when no label is printed.  \<^verbatim>\<open>progressbar_draw\<close> takes
  \<^verbatim>\<open>bar_piece_count\<close> from \<^verbatim>\<open>bar_width\<close> before it increments
  \<^verbatim>\<open>bar_width\<close>, and nothing reads the incremented variable.  On 25 columns the label
  \<^verbatim>\<open>abcde\<close> is dropped and the bar at 1 of 4 steps is written 10 columns wide: 24
  visible columns, where the layout accounts for 25.  By \<open>draw_visible_columns\<close> the
  call is one column short of the layout whenever no label is printed.
\<close>

theorem label_dropped_one_column_short:
  "in_range (steps_bar 5 4 1)
   \<and> draw_screen_width (sample_env 25 1) = 25
   \<and> draw_label_width (sample_env 25 1) sample_mem (steps_bar 5 4 1) = 0
   \<and> draw_bar_width_final 25 5 = 11
   \<and> hours (draw_eta (sample_env 25 1) (steps_bar 5 4 1)) = 0
   \<and> snd (progressbar_draw (sample_env 25 1) sample_mem (steps_bar 5 4 1))
      = ''|==      | ETA: 0h00m03s'' @ [CHR 0x0D]
   \<and> length (butlast (snd (progressbar_draw (sample_env 25 1) sample_mem (steps_bar 5 4 1)))) = 24
   \<and> layout_columns (sample_env 25 1) sample_mem (steps_bar 5 4 1) = 25"
proof -
  have glyphs: "replicate 2 (CHR ''='') @ replicate 6 (CHR '' '') = ''==      ''"
    by (simp add: eval_nat_numeral)
  have "snd (progressbar_draw (sample_env 25 1) sample_mem (steps_bar 5 4 1))
      = ''|'' @ (replicate 2 (CHR ''='') @ replicate 6 (CHR '' '')) @ ''| ETA: 0h00m03s''
        @ [CHR 0x0D]"
    by (simp add: draw_eval sample_defs)
  then have out: "snd (progressbar_draw (sample_env 25 1) sample_mem (steps_bar 5 4 1))
      = ''|==      | ETA: 0h00m03s'' @ [CHR 0x0D]"
    by (simp only: glyphs) simp
  have "length (butlast (snd (progressbar_draw (sample_env 25 1) sample_mem (steps_bar 5 4 1))))
      = 24"
    by (simp only: out) simp
  with out show ?thesis
    by (simp add: draw_eval sample_defs in_range_def layout_columns_def
        draw_bar_width_final_def)
qed

end
